theory Spec2Isabelle
  imports Complex_Main "HOL-Library.AList" "HOL-Library.Multiset"
begin

section \<open>JavaScript values\<close>

text \<open>
  A JavaScript object used as \<open>Record<string, T>\<close> is an association list with
  distinct keys, in insertion order: \<open>obj[k]\<close> is \<open>map_of obj k\<close>, the spread update
  \<open>{...prev, [k]: v}\<close> is \<open>AList.update k v prev\<close> (an existing key keeps its place, a
  new key goes last), \<open>Object.keys\<close> is \<open>map fst\<close> and \<open>Object.values\<close> is
  \<open>map snd\<close>. Keys that look like array indices, which JavaScript would enumerate first,
  do not occur among the labels of this program. Numbers are real numbers: the rounding
  of IEEE doubles is not part of the model. Text outside ASCII is given by its UTF-8
  bytes.
\<close>

definition truthy :: "string option \<Rightarrow> bool" where
  "truthy v = (case v of None \<Rightarrow> False | Some s \<Rightarrow> s \<noteq> [])"

section \<open>Collage compositor (lib/albumUtils.ts)\<close>

record image =
  img_src :: string
  naturalWidth :: nat
  naturalHeight :: nat

datatype album_error = NoCanvasContext | ImageLoadFailed

datatype fill_style =
    Color string
  | RadialGradient real real real real real real "(real \<times> string) list"

datatype canvas_cmd =
    SetFillStyle fill_style
  | FillRect real real real real
  | SetTextAlign string
  | SetTextBaseline string
  | SetShadowColor string
  | SetShadowBlur real
  | SetShadowOffsetX real
  | SetShadowOffsetY real
  | SetFont string
  | FillText string real real
  | Save
  | Restore
  | Translate real real
  | Rotate real
  | BeginPath
  | RoundRect real real real real real
  | Fill
  | Clip
  | DrawImage image real real real real

record canvas =
  canvas_width :: real
  canvas_height :: real
  cmds :: "canvas_cmd list"

text \<open>\<open>canvas.toDataURL(type, quality)\<close>: the encoded picture is determined by the
  canvas, the MIME type and the quality; the JPEG bytes themselves are not computed.\<close>

datatype data_url = DataURL string real canvas

text \<open>What \<open>createAlbumPage\<close> does, in order: a canvas call, the start of an image
  load, or the suspension at \<open>await Promise.all(...)\<close>.\<close>

datatype effect = Draw canvas_cmd | LoadImage string | AwaitAll

text \<open>\<open>loadImage\<close>: the browser decodes the URL (\<open>onload\<close>) or fails (\<open>onerror\<close>);
  \<open>decode\<close> is the browser's answer for each URL. The rejection's message, which quotes
  the URL, is not kept.\<close>

definition loadImage :: "(string \<Rightarrow> image option) \<Rightarrow> string \<Rightarrow> album_error + image" where
  "loadImage decode src =
     (case decode src of Some img \<Rightarrow> Inr img | None \<Rightarrow> Inl ImageLoadFailed)"

text \<open>\<open>Promise.all\<close>: fulfilled with all values, in input order, when every promise is
  fulfilled; rejected as soon as one is rejected.\<close>

fun promise_all :: "('e + 'a) list \<Rightarrow> 'e + 'a list" where
  "promise_all [] = Inr []"
| "promise_all (Inl e # ps) = Inl e"
| "promise_all (Inr v # ps) = (case promise_all ps of Inl e \<Rightarrow> Inl e | Inr vs \<Rightarrow> Inr (v # vs))"

definition canvasWidth :: real where "canvasWidth = 2480"
definition canvasHeight :: real where "canvasHeight = 3508"

definition title_text :: string where
  "title_text = [CHR 0xEB, CHR 0x82, CHR 0x98, CHR 0xEB, CHR 0xA7, CHR 0x8C, CHR 0xEC, CHR 0x9D,
     CHR 0x98, CHR 0x20, CHR 0xEC, CHR 0x9D, CHR 0xB4, CHR 0xEB, CHR 0xAA, CHR 0xA8, CHR 0xED,
     CHR 0x8B, CHR 0xB0, CHR 0xEC, CHR 0xBD, CHR 0x98, CHR 0x20, CHR 0xEC, CHR 0xBB, CHR 0xAC,
     CHR 0xEB, CHR 0xA0, CHR 0x89, CHR 0xEC, CHR 0x85, CHR 0x98]"

definition background_cmds :: "canvas_cmd list" where
  "background_cmds =
     [SetFillStyle (Color ''#09090b''),
      FillRect 0 0 canvasWidth canvasHeight,
      SetFillStyle (RadialGradient (canvasWidth / 2) (canvasHeight / 2) 0
                      (canvasWidth / 2) (canvasHeight / 2) canvasWidth
                      [(0, ''#18181b''), (1, ''#000000'')]),
      FillRect 0 0 canvasWidth canvasHeight]"

definition title_cmds :: "canvas_cmd list" where
  "title_cmds =
     [SetTextAlign ''center'',
      SetShadowColor ''rgba(163, 230, 53, 0.5)'',
      SetShadowBlur 20,
      SetFont ''bold 120px 'Black Han Sans', sans-serif'',
      SetFillStyle (Color ''#a3e635''),
      FillText title_text (canvasWidth / 2) 200,
      SetShadowBlur 0,
      SetFont ''60px 'Do Hyeon', sans-serif'',
      SetFillStyle (Color ''#71717a''),
      FillText ''Made with Gemini AI'' (canvasWidth / 2) 290]"

text \<open>The grid: \<open>const grid = { cols: 2, rows: 3, padding: 120 }\<close>.\<close>

definition grid_cols :: nat where "grid_cols = 2"
definition grid_rows :: nat where "grid_rows = 3"
definition grid_padding :: real where "grid_padding = 120"
definition contentTopMargin :: real where "contentTopMargin = 400"
definition contentHeight :: real where "contentHeight = canvasHeight - contentTopMargin"

definition cellWidth :: real where
  "cellWidth = (canvasWidth - grid_padding * (real grid_cols + 1)) / real grid_cols"

definition cellHeight :: real where
  "cellHeight = (contentHeight - grid_padding * (real grid_rows + 1)) / real grid_rows"

definition cardAspectRatio :: real where "cardAspectRatio = 3 / 4"
definition cardHeight :: real where "cardHeight = cellHeight * 0.9"
definition cardWidth :: real where "cardWidth = cardHeight * cardAspectRatio"

definition card_row :: "nat \<Rightarrow> nat" where
  "card_row index = index div grid_cols"

definition card_col :: "nat \<Rightarrow> nat" where
  "card_col index = index mod grid_cols"

definition card_x :: "nat \<Rightarrow> real" where
  "card_x index =
     grid_padding * (real (card_col index) + 1) + cellWidth * real (card_col index)
       + (cellWidth - cardWidth) / 2"

definition card_y :: "nat \<Rightarrow> real" where
  "card_y index =
     contentTopMargin + grid_padding * (real (card_row index) + 1)
       + cellHeight * real (card_row index) + (cellHeight - cardHeight) / 2"

text \<open>The point the drawing origin is moved to:
  \<open>ctx.translate(x + cardWidth / 2, y + cardHeight / 2)\<close>.\<close>

definition card_center :: "nat \<Rightarrow> real \<times> real" where
  "card_center index = (card_x index + cardWidth / 2, card_y index + cardHeight / 2)"

text \<open>The cell of the grid a card index falls into: its left and top edge.\<close>

definition cell_left :: "nat \<Rightarrow> real" where
  "cell_left index = grid_padding * (real (card_col index) + 1) + cellWidth * real (card_col index)"

definition cell_top :: "nat \<Rightarrow> real" where
  "cell_top index =
     contentTopMargin + grid_padding * (real (card_row index) + 1)
       + cellHeight * real (card_row index)"

definition imgHeight :: real where "imgHeight = cardHeight * 0.85"
definition imgWidth :: real where "imgWidth = cardWidth"

text \<open>The cover fit of lines 117 to 131: from the picture's natural size and the target
  size to \<open>(drawW, drawH, offX, offY)\<close>. For a picture of natural height 0 JavaScript
  divides to \<open>Infinity\<close> or \<open>NaN\<close>, which real numbers do not have: what is proved
  about the fit is proved for positive sizes.\<close>

definition cover_fit :: "real \<Rightarrow> real \<Rightarrow> real \<Rightarrow> real \<Rightarrow> real \<times> real \<times> real \<times> real" where
  "cover_fit natW natH tgtW tgtH =
     (let imgRatio = natW / natH;
          targetRatio = tgtW / tgtH
      in if imgRatio > targetRatio
         then (let drawH = tgtH; drawW = drawH * imgRatio
               in (drawW, drawH, - (drawW - tgtW) / 2, 0))
         else (let drawW = tgtW; drawH = drawW / imgRatio
               in (drawW, drawH, 0, - (drawH - tgtH) / 2)))"

text \<open>The body of the \<open>forEach\<close>; \<open>r\<close> is the value \<open>Math.random()\<close> returns for
  this card.\<close>

definition draw_card :: "real \<Rightarrow> nat \<Rightarrow> string \<Rightarrow> image \<Rightarrow> canvas_cmd list" where
  "draw_card r index lbl img =
     (case cover_fit (real (naturalWidth img)) (real (naturalHeight img)) imgWidth imgHeight of
        (drawW, drawH, offX, offY) \<Rightarrow>
     [Save,
      Translate (card_x index + cardWidth / 2) (card_y index + cardHeight / 2),
      Rotate ((r - 0.5) * 0.05),
      SetShadowColor ''rgba(0, 0, 0, 0.5)'',
      SetShadowBlur 40,
      SetShadowOffsetX 0,
      SetShadowOffsetY 20,
      SetFillStyle (Color ''#27272a''),
      BeginPath,
      RoundRect (- cardWidth / 2) (- cardHeight / 2) cardWidth cardHeight 40,
      Fill,
      Clip,
      DrawImage img (offX - cardWidth / 2) (offY - cardHeight / 2) drawW drawH,
      SetFillStyle (Color ''#18181b''),
      FillRect (- cardWidth / 2) (cardHeight / 2 - (cardHeight - imgHeight))
               cardWidth (cardHeight - imgHeight),
      SetShadowColor ''transparent'',
      SetFillStyle (Color ''#a3e635''),
      SetFont ''60px 'Do Hyeon', sans-serif'',
      SetTextAlign ''center'',
      SetTextBaseline ''middle'',
      FillText (''#'' @ lbl) 0 (cardHeight / 2 - (cardHeight - imgHeight) / 2),
      Restore])"

definition toDataURL :: "canvas_cmd list \<Rightarrow> data_url" where
  "toDataURL cs =
     DataURL ''image/jpeg'' 0.9 \<lparr>canvas_width = canvasWidth, canvas_height = canvasHeight, cmds = cs\<rparr>"

text \<open>\<open>imagesWithLabels\<close> with the index \<open>forEach\<close> passes.\<close>

definition imagesWithLabels :: "string list \<Rightarrow> image list \<Rightarrow> (nat \<times> string \<times> image) list" where
  "imagesWithLabels labels loadedImages = zip [0..<length labels] (zip labels loadedImages)"

definition card_cmds :: "(nat \<Rightarrow> real) \<Rightarrow> (nat \<times> string \<times> image) list \<Rightarrow> canvas_cmd list" where
  "card_cmds random iwl =
     concat (map (\<lambda>(index, lbl, img). draw_card (random index) index lbl img) iwl)"

text \<open>\<open>createAlbumPage\<close>. \<open>has_ctx\<close> says whether \<open>getContext('2d')\<close> returns a
  context, \<open>decode\<close> is the browser's image decoder, \<open>random i\<close> the value of
  \<open>Math.random()\<close> in the card of index \<open>i\<close>. The result is the sequence of effects
  and the promise's outcome.\<close>

definition createAlbumPage ::
  "bool \<Rightarrow> (string \<Rightarrow> image option) \<Rightarrow> (nat \<Rightarrow> real) \<Rightarrow> (string \<times> string) list
     \<Rightarrow> effect list \<times> (album_error + data_url)" where
  "createAlbumPage has_ctx decode random imageData =
     (if \<not> has_ctx then ([], Inl NoCanvasContext)
      else
        let pre = background_cmds @ title_cmds;
            labels = map fst imageData;
            urls = map snd imageData;
            before = map Draw pre @ map LoadImage urls @ [AwaitAll]
        in case promise_all (map (loadImage decode) urls) of
             Inl e \<Rightarrow> (before, Inl e)
           | Inr loadedImages \<Rightarrow>
               (let cards = card_cmds random (imagesWithLabels labels loadedImages)
                in (before @ map Draw cards, Inr (toDataURL (pre @ cards)))))"

section \<open>The 2D context: what a sequence of canvas calls paints\<close>

text \<open>
  The program only translates and rotates the context, so the current transform is a
  placement: the canvas position of the local origin and the angle the local axes are
  turned by. \<open>to_canvas\<close> maps a local point to canvas coordinates (the y axis points
  down, positive angles turn clockwise on the screen).
\<close>

record placement =
  px :: real
  py :: real
  pangle :: real

definition to_canvas :: "placement \<Rightarrow> real \<times> real \<Rightarrow> real \<times> real" where
  "to_canvas pl p =
     (px pl + fst p * cos (pangle pl) - snd p * sin (pangle pl),
      py pl + fst p * sin (pangle pl) + snd p * cos (pangle pl))"

text \<open>What reaches the canvas: a filled rectangle, a filled rounded rectangle, a picture
  or a line of text, each with the placement in force and its local coordinates.\<close>

datatype painted =
    PaintedRect placement real real real real
  | PaintedRoundRect placement real real real real real
  | PaintedImage placement image real real real real
  | PaintedText placement string real real

text \<open>Of the state of the context the current transform, the transforms saved by
  \<open>save()\<close> and the current path are followed; styles, shadows and the clip region are
  not. \<open>translate\<close> moves the origin to the given local point, \<open>rotate\<close> adds to the
  angle, \<open>roundRect\<close> adds to the path under the transform in force, \<open>fill()\<close> paints
  the path, \<open>restore()\<close> takes back the last saved transform (and does nothing when
  none is saved).\<close>

record gfx =
  transform :: placement
  stack :: "placement list"
  path :: "(placement \<times> real \<times> real \<times> real \<times> real \<times> real) list"
  paints :: "painted list"

fun exec :: "canvas_cmd \<Rightarrow> gfx \<Rightarrow> gfx" where
  "exec Save g = g\<lparr>stack := transform g # stack g\<rparr>"
| "exec Restore g =
     (case stack g of [] \<Rightarrow> g | t # ts \<Rightarrow> g\<lparr>transform := t, stack := ts\<rparr>)"
| "exec (Translate x y) g =
     g\<lparr>transform := (transform g)\<lparr>px := fst (to_canvas (transform g) (x, y)),
                                   py := snd (to_canvas (transform g) (x, y))\<rparr>\<rparr>"
| "exec (Rotate a) g = g\<lparr>transform := (transform g)\<lparr>pangle := pangle (transform g) + a\<rparr>\<rparr>"
| "exec BeginPath g = g\<lparr>path := []\<rparr>"
| "exec (RoundRect x y w h r) g = g\<lparr>path := path g @ [(transform g, x, y, w, h, r)]\<rparr>"
| "exec Fill g =
     g\<lparr>paints := paints g @ map (\<lambda>(t, x, y, w, h, r). PaintedRoundRect t x y w h r) (path g)\<rparr>"
| "exec (FillRect x y w h) g = g\<lparr>paints := paints g @ [PaintedRect (transform g) x y w h]\<rparr>"
| "exec (DrawImage img x y w h) g =
     g\<lparr>paints := paints g @ [PaintedImage (transform g) img x y w h]\<rparr>"
| "exec (FillText txt x y) g = g\<lparr>paints := paints g @ [PaintedText (transform g) txt x y]\<rparr>"
| "exec Clip g = g"
| "exec (SetFillStyle st) g = g"
| "exec (SetTextAlign v) g = g"
| "exec (SetTextBaseline v) g = g"
| "exec (SetShadowColor v) g = g"
| "exec (SetShadowBlur b) g = g"
| "exec (SetShadowOffsetX d) g = g"
| "exec (SetShadowOffsetY d) g = g"
| "exec (SetFont f) g = g"

definition identity_placement :: placement where
  "identity_placement = \<lparr>px = 0, py = 0, pangle = 0\<rparr>"

text \<open>A fresh context.\<close>

definition fresh_gfx :: gfx where
  "fresh_gfx = \<lparr>transform = identity_placement, stack = [], path = [], paints = []\<rparr>"

definition exec_all :: "canvas_cmd list \<Rightarrow> gfx \<Rightarrow> gfx" where
  "exec_all cs g = foldl (\<lambda>g' c. exec c g') g cs"

text \<open>The context after all calls of an album page, when the call returns a data URL.\<close>

definition album_gfx ::
  "bool \<Rightarrow> (string \<Rightarrow> image option) \<Rightarrow> (nat \<Rightarrow> real) \<Rightarrow> (string \<times> string) list \<Rightarrow> gfx option" where
  "album_gfx has_ctx decode random imageData =
     (case snd (createAlbumPage has_ctx decode random imageData) of
        Inl e \<Rightarrow> None
      | Inr (DataURL mime quality c) \<Rightarrow> Some (exec_all (cmds c) fresh_gfx))"

section \<open>Application state (App.tsx)\<close>

record emotion =
  id_emotion :: string
  label :: string
  promptAdjective :: string

definition EMOTIONS :: "emotion list" where
  "EMOTIONS =
     [\<lparr>id_emotion = ''joy'',
       label = [CHR 0xED, CHR 0x95, CHR 0xB5, CHR 0xEC, CHR 0x9D, CHR 0xB8, CHR 0xEC, CHR 0x8B,
                CHR 0xB8, CHR 0x20, CHR 0xEC, CHR 0x9B, CHR 0x83, CHR 0xEC, CHR 0x9D, CHR 0x8C],
       promptAdjective = ''overjoyed, laughing uncontrollably, extremely happy, ROFL''\<rparr>,
      \<lparr>id_emotion = ''sadness'',
       label = [CHR 0xEA, CHR 0xB4, CHR 0x91, CHR 0xEA, CHR 0xB4, CHR 0x91, CHR 0x20, CHR 0xEC,
                CHR 0x9A, CHR 0xB0, CHR 0xEB, CHR 0x9F, CHR 0xAD],
       promptAdjective = ''crying dramatic tears, very sad, gloomy, heartbroken''\<rparr>,
      \<lparr>id_emotion = ''anger'',
       label = [CHR 0xEA, CHR 0xB7, CHR 0xB9, CHR 0xEB, CHR 0x8C, CHR 0x80, CHR 0xEB, CHR 0x85,
                CHR 0xB8],
       promptAdjective = ''furious, angry, fire in eyes, red face, steam coming out of ears''\<rparr>,
      \<lparr>id_emotion = ''surprise'',
       label = [CHR 0xE3, CHR 0x84, CHR 0xB4, CHR 0x30, CHR 0xE3, CHR 0x84, CHR 0xB1, CHR 0x20,
                CHR 0xEC, CHR 0x83, CHR 0x81, CHR 0xEC, CHR 0x83, CHR 0x81, CHR 0xEB, CHR 0xB6,
                CHR 0x88, CHR 0xEA, CHR 0xB0, CHR 0x80],
       promptAdjective = ''shocked, mind blown, wide eyes, jaw dropped, exploding head gesture''\<rparr>,
      \<lparr>id_emotion = ''love'',
       label = [CHR 0xEC, CHR 0x8B, CHR 0xAC, CHR 0xEC, CHR 0xBF, CHR 0xB5, CHR 0x20, CHR 0xEC,
                CHR 0xA3, CHR 0xBC, CHR 0xEC, CHR 0x9D, CHR 0x98],
       promptAdjective = ''deeply in love, heart eyes, floating hearts, romantic blush''\<rparr>,
      \<lparr>id_emotion = ''confused'',
       label = [CHR 0xEB, CHR 0x8F, CHR 0x99, CHR 0xEA, CHR 0xB3, CHR 0xB5, CHR 0x20, CHR 0xEC,
                CHR 0xA7, CHR 0x80, CHR 0xEC, CHR 0xA7, CHR 0x84],
       promptAdjective = ''confused, dizzy eyes, question marks, scratching head, bewildered''\<rparr>]"

datatype ImageStatus = Pending | Done | Error

record GeneratedImage =
  status :: ImageStatus
  url :: "string option"
  error :: "string option"

datatype AppState = Idle | ImageUploaded | Generating | ResultsShown

record app =
  uploadedImage :: "string option"
  generatedImages :: "(string \<times> GeneratedImage) list"
  isLoading :: bool
  isDownloading :: bool
  appState :: AppState

text \<open>The three object literals the program stores in \<open>generatedImages\<close>:
  \<open>{ status: 'pending' }\<close>, \<open>{ status: 'done', url: resultUrl }\<close> and
  \<open>{ status: 'error', error: errorMessage }\<close>.\<close>

definition pending_entry :: GeneratedImage where
  "pending_entry = \<lparr>status = Pending, url = None, error = None\<rparr>"

definition done_entry :: "string \<Rightarrow> GeneratedImage" where
  "done_entry resultUrl = \<lparr>status = Done, url = Some resultUrl, error = None\<rparr>"

definition error_entry :: "string \<Rightarrow> GeneratedImage" where
  "error_entry errorMessage = \<lparr>status = Error, url = None, error = Some errorMessage\<rparr>"

text \<open>What a \<open>catch (err)\<close> receives: an instance of \<open>Error\<close>, with its \<open>message\<close>
  (the empty string when the error was made without one), or any other thrown value.\<close>

datatype thrown = ErrorInstance string | NotAnError

text \<open>How a call of \<open>generateDecadeImage\<close> settles.\<close>

datatype settlement = Fulfilled string | Rejected thrown

definition default_error_message :: string where
  "default_error_message = [CHR 0xEC, CHR 0x98, CHR 0xA4, CHR 0xEB, CHR 0xA5, CHR 0x98, CHR 0x20,
     CHR 0xEB, CHR 0xB0, CHR 0x9C, CHR 0xEC, CHR 0x83, CHR 0x9D]"

text \<open>\<open>err instanceof Error ? err.message : default\<close>.\<close>

definition errorMessage :: "thrown \<Rightarrow> string" where
  "errorMessage err =
     (case err of ErrorInstance message \<Rightarrow> message | NotAnError \<Rightarrow> default_error_message)"

text \<open>The entry written when the request settles: the \<open>try\<close> branch or the
  \<open>catch\<close> branch.\<close>

definition settled_entry :: "settlement \<Rightarrow> GeneratedImage" where
  "settled_entry out =
     (case out of
        Fulfilled resultUrl \<Rightarrow> done_entry resultUrl
      | Rejected err \<Rightarrow> error_entry (errorMessage err))"

definition prompt_for :: "emotion \<Rightarrow> string" where
  "prompt_for emotionItem =
     ''Turn the person in this photo into a trendy, high-quality 3D Pixar-style character or glossy 3D sticker art. The character is expressing the emotion: ''
     @ promptAdjective emotionItem
     @ ''. The facial expression must be exaggerated and funny. Lighting should be studio quality with rim lighting. Background should be a simple, vibrant solid pop color.''"

text \<open>One call \<open>generateDecadeImage(uploadedImage, prompt)\<close>, with the label it is
  made for.\<close>

record request =
  req_label :: string
  req_image :: string
  req_prompt :: string

definition request_for :: "string \<Rightarrow> emotion \<Rightarrow> request" where
  "request_for img emotionItem =
     \<lparr>req_label = label emotionItem, req_image = img, req_prompt = prompt_for emotionItem\<rparr>"

section \<open>Generation pipeline (handleGenerateClick)\<close>

text \<open>
  The handler is an \<open>async\<close> function on the single UI thread. It runs to its first
  \<open>await\<close>, and each later piece runs when the awaited promise settles. A worker is
  at the head of its \<open>while\<close> loop, suspended in \<open>await generateDecadeImage(...)\<close>
  inside \<open>processEmotion\<close> (with the ticket of that call), or has left the loop.
  The run keeps, beside the program's own variables, three records of what has
  happened: every call made (\<open>issued\<close>, the ticket of a call is its position), the
  calls not yet settled (\<open>outstanding\<close>) and the settlements seen (\<open>settledLog\<close>).
  The steps of the handler itself come first; what the user can do to the page while the
  handler is suspended is added to them further below.
\<close>

datatype worker = AtLoopHead | Awaiting nat | Joined

datatype main_state = AwaitingWorkers | Returned

record run = app +
  sourceImage :: string
  emotionsQueue :: "emotion list"
  workers :: "worker list"
  main :: main_state
  issued :: "request list"
  outstanding :: "(nat \<times> request) list"
  settledLog :: "(request \<times> settlement) list"

definition concurrencyLimit :: nat where "concurrencyLimit = 2"

text \<open>\<open>initialImages\<close> after the \<open>forEach\<close>.\<close>

definition initialImages :: "emotion list \<Rightarrow> (string \<times> GeneratedImage) list" where
  "initialImages es = foldl (\<lambda>acc emotion. AList.update (label emotion) pending_entry acc) [] es"

text \<open>\<open>processEmotion\<close> up to its \<open>await\<close>: the request is issued and worker \<open>w\<close>
  is suspended on it.\<close>

definition processEmotion_call :: "nat \<Rightarrow> emotion \<Rightarrow> run \<Rightarrow> run" where
  "processEmotion_call w emotionItem s =
     (let t = length (issued s);
          r = request_for (sourceImage s) emotionItem
      in s\<lparr>workers := (workers s)[w := Awaiting t],
           issued := issued s @ [r],
           outstanding := outstanding s @ [(t, r)]\<rparr>)"

text \<open>\<open>processEmotion\<close> after its \<open>await\<close>: the entry of the label is replaced, and the
  worker that waited for this call is back at the head of its loop.\<close>

definition processEmotion_settled :: "nat \<Rightarrow> request \<Rightarrow> settlement \<Rightarrow> run \<Rightarrow> run" where
  "processEmotion_settled t r out s =
     s\<lparr>generatedImages := AList.update (req_label r) (settled_entry out) (generatedImages s),
       workers := map (\<lambda>wk. if wk = Awaiting t then AtLoopHead else wk) (workers s),
       outstanding := filter (\<lambda>c. fst c \<noteq> t) (outstanding s),
       settledLog := settledLog s @ [(r, out)]\<rparr>"

text \<open>One pass of a worker from the head of
  \<open>while (emotionsQueue.length > 0) { const emotion = emotionsQueue.shift(); ... }\<close>
  to its next suspension or to its end. The test \<open>if (emotion)\<close> is always true
  there: the queue holds objects and is not empty.\<close>

definition worker_loop :: "nat \<Rightarrow> run \<Rightarrow> run" where
  "worker_loop w s =
     (case emotionsQueue s of
        [] \<Rightarrow> s\<lparr>workers := (workers s)[w := Joined]\<rparr>
      | emotionItem # rest \<Rightarrow> processEmotion_call w emotionItem (s\<lparr>emotionsQueue := rest\<rparr>))"

text \<open>The first \<open>k\<close> workers made by \<open>Array(concurrencyLimit).fill(null).map(async ...)\<close>:
  each runs at once to its first suspension, in index order.\<close>

definition start_workers :: "nat \<Rightarrow> run \<Rightarrow> run" where
  "start_workers k s = foldl (\<lambda>s' w. worker_loop w s') s [0..<k]"

text \<open>The state when the handler has made \<open>initialImages\<close>, the queue and the (not yet
  started) workers.\<close>

definition initial_run :: "emotion list \<Rightarrow> string \<Rightarrow> app \<Rightarrow> run" where
  "initial_run es img a =
     \<lparr>uploadedImage = uploadedImage a,
      generatedImages = initialImages es,
      isLoading = True,
      isDownloading = isDownloading a,
      appState = Generating,
      sourceImage = img,
      emotionsQueue = es,
      workers = replicate concurrencyLimit AtLoopHead,
      main = AwaitingWorkers,
      issued = [],
      outstanding = [],
      settledLog = []\<rparr>"

text \<open>\<open>handleGenerateClick\<close> up to \<open>await Promise.all(workers)\<close>. \<open>None\<close>: the
  handler returned at \<open>if (!uploadedImage) return\<close> and nothing changed. \<open>es\<close> is the
  constant \<open>EMOTIONS\<close>.\<close>

definition handleGenerateClick :: "emotion list \<Rightarrow> app \<Rightarrow> run option" where
  "handleGenerateClick es a =
     (case uploadedImage a of
        None \<Rightarrow> None
      | Some img \<Rightarrow>
          if img = [] then None
          else Some (start_workers concurrencyLimit (initial_run es img a)))"

text \<open>What can happen next in a run: the call with ticket \<open>t\<close> settles, the worker
  \<open>w\<close> continues after its \<open>await processEmotion(...)\<close>, or the handler continues
  after \<open>await Promise.all(workers)\<close>.\<close>

datatype event = Settle nat settlement | Resume nat | Finish

fun step :: "event \<Rightarrow> run \<Rightarrow> run option" where
  "step (Settle t out) s =
     (case map_of (outstanding s) t of
        None \<Rightarrow> None
      | Some r \<Rightarrow> Some (processEmotion_settled t r out s))"
| "step (Resume w) s =
     (if w < length (workers s) \<and> workers s ! w = AtLoopHead
      then Some (worker_loop w s) else None)"
| "step Finish s =
     (if list_all (\<lambda>wk. wk = Joined) (workers s) \<and> main s = AwaitingWorkers
      then Some (s\<lparr>isLoading := False, appState := ResultsShown, main := Returned\<rparr>)
      else None)"

fun run_events :: "event list \<Rightarrow> run \<Rightarrow> run option" where
  "run_events [] s = Some s"
| "run_events (ev # evs) s =
     (case step ev s of None \<Rightarrow> None | Some s' \<Rightarrow> run_events evs s')"


definition terminal :: "GeneratedImage option \<Rightarrow> bool" where
  "terminal g = (case g of None \<Rightarrow> False | Some e \<Rightarrow> status e = Done \<or> status e = Error)"

section \<open>Regenerating one label (handleRegenerateEmotion)\<close>

text \<open>\<open>handleRegenerateEmotion\<close> up to its \<open>await\<close>: the new state and the request it
  issued, if any. The three early returns leave the state as it is.\<close>

definition handleRegenerateEmotion_call ::
  "emotion list \<Rightarrow> string \<Rightarrow> app \<Rightarrow> app \<times> request option" where
  "handleRegenerateEmotion_call es lbl a =
     (case uploadedImage a of
        None \<Rightarrow> (a, None)
      | Some img \<Rightarrow>
          if img = [] then (a, None)
          else (case find (\<lambda>e. label e = lbl) es of
                  None \<Rightarrow> (a, None)
                | Some emotionItem \<Rightarrow>
                    if map_option status (map_of (generatedImages a) lbl) = Some Pending
                    then (a, None)
                    else (a\<lparr>generatedImages := AList.update lbl pending_entry (generatedImages a)\<rparr>,
                          Some (request_for img emotionItem))))"

text \<open>\<open>handleRegenerateEmotion\<close> after its \<open>await\<close>.\<close>

definition handleRegenerateEmotion_settled :: "string \<Rightarrow> settlement \<Rightarrow> app \<Rightarrow> app" where
  "handleRegenerateEmotion_settled lbl out a =
     a\<lparr>generatedImages := AList.update lbl (settled_entry out) (generatedImages a)\<rparr>"

section \<open>The page while the pipeline runs\<close>

text \<open>
  While \<open>appState\<close> is \<open>'generating'\<close> the cards are on the page with
  \<open>onShake = handleRegenerateEmotion\<close>, so between two steps of the handler the user
  can regenerate a label. The handler of the shake works on the same
  \<open>generatedImages\<close>; its request is not one of the pool. Nothing else the user can do
  in that state changes the state: the buttons for reset and for the album are not
  shown. \<open>regenerating\<close> holds the regenerate requests that have not settled; some may
  be left from before the run.
\<close>

record page =
  the_run :: run
  regenerating :: "request list"

text \<open>The application state inside a run.\<close>

definition app_of :: "run \<Rightarrow> app" where
  "app_of s =
     \<lparr>uploadedImage = uploadedImage s, generatedImages = generatedImages s,
      isLoading = isLoading s, isDownloading = isDownloading s, appState = appState s\<rparr>"

datatype page_event = Handler event | Shake string | RegenerateSettled string settlement

fun page_step :: "emotion list \<Rightarrow> page_event \<Rightarrow> page \<Rightarrow> page option" where
  "page_step es (Handler ev) p =
     (case step ev (the_run p) of
        None \<Rightarrow> None
      | Some s' \<Rightarrow> Some (p\<lparr>the_run := s'\<rparr>))"
| "page_step es (Shake lbl) p =
     (case handleRegenerateEmotion_call es lbl (app_of (the_run p)) of
        (a', None) \<Rightarrow> Some (p\<lparr>the_run := (the_run p)\<lparr>generatedImages := generatedImages a'\<rparr>\<rparr>)
      | (a', Some r) \<Rightarrow>
          Some (p\<lparr>the_run := (the_run p)\<lparr>generatedImages := generatedImages a'\<rparr>,
                  regenerating := regenerating p @ [r]\<rparr>))"
| "page_step es (RegenerateSettled lbl out) p =
     (case find (\<lambda>r. req_label r = lbl) (regenerating p) of
        None \<Rightarrow> None
      | Some r \<Rightarrow>
          Some (p\<lparr>the_run := (the_run p)\<lparr>generatedImages :=
                     generatedImages (handleRegenerateEmotion_settled lbl out (app_of (the_run p)))\<rparr>,
                  regenerating := remove1 r (regenerating p)\<rparr>))"

fun page_run :: "emotion list \<Rightarrow> page_event list \<Rightarrow> page \<Rightarrow> page option" where
  "page_run es [] p = Some p"
| "page_run es (ev # evs) p =
     (case page_step es ev p of None \<Rightarrow> None | Some p' \<Rightarrow> page_run es evs p')"



section \<open>Album export (handleDownloadAlbum)\<close>

text \<open>\<open>imageData\<close>: the entries that are done and have a (non-empty) URL, as label and
  URL.\<close>

definition album_input :: "(string \<times> GeneratedImage) list \<Rightarrow> (string \<times> string) list" where
  "album_input gi =
     foldl (\<lambda>acc (lbl, image).
              case url image of
                None \<Rightarrow> acc
              | Some u \<Rightarrow> if u = [] then acc else AList.update lbl u acc)
           []
           (filter (\<lambda>(lbl, image). status image = Done \<and> truthy (url image)) gi)"

datatype notice = StillGenerating | SaveFailed

text \<open>What the user sees of an export: an \<open>alert\<close>, the composition (with its own
  effects), the error written to the console, or the click on the download link.\<close>

datatype ui_effect =
    Alert notice
  | Compose "(string \<times> string) list" "effect list"
  | ConsoleError album_error
  | Download string data_url

definition handleDownloadAlbum ::
  "emotion list \<Rightarrow> bool \<Rightarrow> (string \<Rightarrow> image option) \<Rightarrow> (nat \<Rightarrow> real) \<Rightarrow> app
     \<Rightarrow> app \<times> ui_effect list" where
  "handleDownloadAlbum es has_ctx decode random a =
     (let imageData = album_input (generatedImages a);
          a' = a\<lparr>isDownloading := False\<rparr>
      in if length imageData < length es then (a', [Alert StillGenerating])
         else (case createAlbumPage has_ctx decode random imageData of
                 (effs, Inl e) \<Rightarrow> (a', [Compose imageData effs, ConsoleError e, Alert SaveFailed])
               | (effs, Inr albumDataUrl) \<Rightarrow>
                   (a', [Compose imageData effs, Download ''my-emoji-collection.jpg'' albumDataUrl])))"

text \<open>The invariant of the data model: at most one of \<open>url\<close> and \<open>error\<close> is set, and a
  pending entry has neither.\<close>

definition entry_ok :: "GeneratedImage \<Rightarrow> bool" where
  "entry_ok g = (\<not> (url g \<noteq> None \<and> error g \<noteq> None)
                 \<and> (status g = Pending \<longrightarrow> url g = None \<and> error g = None))"

definition results_ok :: "(string \<times> GeneratedImage) list \<Rightarrow> bool" where
  "results_ok gi = list_all (\<lambda>(lbl, g). entry_ok g) gi"

section \<open>Notions used in the statements\<close>

text \<open>The tickets the workers are suspended on.\<close>

fun awaited :: "worker list \<Rightarrow> nat list" where
  "awaited [] = []"
| "awaited (Awaiting t # ws) = t # awaited ws"
| "awaited (AtLoopHead # ws) = awaited ws"
| "awaited (Joined # ws) = awaited ws"

text \<open>The pool: there are \<open>concurrencyLimit\<close> workers, and the outstanding calls are
  those the workers are suspended on.\<close>

definition pool_inv :: "run \<Rightarrow> bool" where
  "pool_inv s \<longleftrightarrow>
     length (workers s) = concurrencyLimit
     \<and> mset (map fst (outstanding s)) = mset (awaited (workers s))"

text \<open>The ledger of a run over the list \<open>es\<close>: tickets are distinct and belong to
  calls made; the calls made so far are those for a prefix of \<open>es\<close> and the queue is the
  rest; each call made is outstanding or settled; and a worker has left its loop only
  when the queue was empty.\<close>

definition ledger_inv :: "emotion list \<Rightarrow> run \<Rightarrow> bool" where
  "ledger_inv es s \<longleftrightarrow>
     distinct (map fst (outstanding s))
     \<and> (\<forall>c \<in> set (outstanding s). fst c < length (issued s))
     \<and> issued s @ map (request_for (sourceImage s)) (emotionsQueue s)
         = map (request_for (sourceImage s)) es
     \<and> mset (issued s) = mset (map snd (outstanding s)) + mset (map fst (settledLog s))
     \<and> (Joined \<in> set (workers s) \<longrightarrow> emotionsQueue s = [])"


text \<open>The centre, in canvas coordinates, of a rectangle given in local coordinates.\<close>

definition rect_centre :: "placement \<Rightarrow> real \<Rightarrow> real \<Rightarrow> real \<Rightarrow> real \<Rightarrow> real \<times> real" where
  "rect_centre pl x y w h = to_canvas pl (x + w / 2, y + h / 2)"

text \<open>Where the card of index \<open>i\<close> is to be: the origin at the centre of the card, turned
  by the jitter of the random value \<open>r\<close>; and what is to be painted for it, in local
  coordinates: the rounded card, the picture, the caption strip and the caption.\<close>

definition card_placement :: "real \<Rightarrow> nat \<Rightarrow> placement" where
  "card_placement r i =
     \<lparr>px = card_x i + cardWidth / 2, py = card_y i + cardHeight / 2, pangle = (r - 0.5) * 0.05\<rparr>"

definition card_paints :: "real \<Rightarrow> nat \<Rightarrow> string \<Rightarrow> image \<Rightarrow> painted list" where
  "card_paints r i lbl img =
     [PaintedRoundRect (card_placement r i) (- cardWidth / 2) (- cardHeight / 2) cardWidth cardHeight 40,
      PaintedImage (card_placement r i) img
        (fst (snd (snd (cover_fit (real (naturalWidth img)) (real (naturalHeight img)) imgWidth imgHeight)))
           - cardWidth / 2)
        (snd (snd (snd (cover_fit (real (naturalWidth img)) (real (naturalHeight img)) imgWidth imgHeight)))
           - cardHeight / 2)
        (fst (cover_fit (real (naturalWidth img)) (real (naturalHeight img)) imgWidth imgHeight))
        (fst (snd (cover_fit (real (naturalWidth img)) (real (naturalHeight img)) imgWidth imgHeight))),
      PaintedRect (card_placement r i) (- cardWidth / 2) (cardHeight / 2 - 0.15 * cardHeight)
        cardWidth (0.15 * cardHeight),
      PaintedText (card_placement r i) (''#'' @ lbl) 0 (cardHeight / 2 - 0.075 * cardHeight)]"

text \<open>What background and title paint: two full-canvas rectangles and two lines of text,
  all in the untransformed context.\<close>

definition page_paints :: "painted list" where
  "page_paints =
     [PaintedRect identity_placement 0 0 canvasWidth canvasHeight,
      PaintedRect identity_placement 0 0 canvasWidth canvasHeight,
      PaintedText identity_placement title_text (canvasWidth / 2) 200,
      PaintedText identity_placement ''Made with Gemini AI'' (canvasWidth / 2) 290]"

text \<open>A bound on the number of events a run can still take.\<close>

definition run_measure :: "run \<Rightarrow> nat" where
  "run_measure s =
     3 * length (emotionsQueue s) + 2 * length (awaited (workers s))
     + length (filter (\<lambda>wk. wk = AtLoopHead) (workers s))
     + (if main s = AwaitingWorkers then 1 else 0)"

text \<open>A failure carries a message when it is an \<open>Error\<close> whose message is not empty.\<close>

definition carries_message :: "thrown \<Rightarrow> bool" where
  "carries_message err = (case err of ErrorInstance message \<Rightarrow> message \<noteq> [] | NotAnError \<Rightarrow> False)"

fun is_draw :: "effect \<Rightarrow> bool" where
  "is_draw (Draw c) = True"
| "is_draw (LoadImage u) = False"
| "is_draw AwaitAll = False"

text \<open>Nothing is drawn before the compositor has waited for the loads.\<close>

definition draws_nothing_before_await :: "effect list \<Rightarrow> bool" where
  "draws_nothing_before_await effs =
     list_all (\<lambda>e. \<not> is_draw e) (takeWhile (\<lambda>e. e \<noteq> AwaitAll) effs)"

text \<open>The entries of the results that are done and have a URL.\<close>

definition done_with_url :: "(string \<times> GeneratedImage) list \<Rightarrow> (string \<times> GeneratedImage) list" where
  "done_with_url gi = filter (\<lambda>(lbl, image). status image = Done \<and> truthy (url image)) gi"

section \<open>The compositor: layout and cover fit\<close>

lemma grid_values:
  "cellWidth = 1060" "cellHeight = 876" "cardHeight = 7884 / 10" "cardWidth = 5913 / 10"
  by (simp_all add: cellWidth_def cellHeight_def cardHeight_def cardWidth_def canvasWidth_def
      canvasHeight_def contentHeight_def contentTopMargin_def grid_padding_def grid_cols_def
      grid_rows_def cardAspectRatio_def)

lemma img_values: "imgWidth = 5913 / 10" "imgHeight = 67014 / 100"
  by (simp_all add: imgWidth_def imgHeight_def grid_values)

lemma promise_all_length: "promise_all ps = Inr vs \<Longrightarrow> length vs = length ps"
proof (induction ps arbitrary: vs)
  case Nil
  then show ?case by simp
next
  case (Cons p ps)
  then show ?case by (cases p) (auto split: sum.splits)
qed

lemma imagesWithLabels_nth:
  assumes "length imgs = length labels"
  shows "imagesWithLabels labels imgs = map (\<lambda>i. (i, labels ! i, imgs ! i)) [0..<length labels]"
  using assms by (intro nth_equalityI) (simp_all add: imagesWithLabels_def)

lemma card_cmds_nth:
  assumes "length imgs = length labels"
  shows "card_cmds random (imagesWithLabels labels imgs) =
         concat (map (\<lambda>i. draw_card (random i) i (labels ! i) (imgs ! i)) [0..<length labels])"
  by (simp add: imagesWithLabels_nth[OF assms] card_cmds_def comp_def)

text \<open>When every image loads, the call succeeds, whatever the number of entries: the
  cards follow background and title, one per entry, in the order of the entries.\<close>

lemma createAlbumPage_loaded:
  assumes "promise_all (map (loadImage decode) (map snd imageData)) = Inr imgs"
  shows "createAlbumPage True decode random imageData =
          (map Draw (background_cmds @ title_cmds) @ map LoadImage (map snd imageData) @ [AwaitAll]
             @ map Draw (concat (map (\<lambda>i. draw_card (random i) i (fst (imageData ! i)) (imgs ! i))
                                  [0..<length imageData])),
           Inr (toDataURL (background_cmds @ title_cmds @
                  concat (map (\<lambda>i. draw_card (random i) i (fst (imageData ! i)) (imgs ! i))
                            [0..<length imageData]))))"
proof -
  have len: "length imgs = length (map fst imageData)"
    using promise_all_length[OF assms] by simp
  have "card_cmds random (imagesWithLabels (map fst imageData) imgs) =
        concat (map (\<lambda>i. draw_card (random i) i (fst (imageData ! i)) (imgs ! i)) [0..<length imageData])"
    unfolding card_cmds_nth[OF len] by (intro arg_cong[where f=concat] map_cong) auto
  then show ?thesis
    using assms by (simp add: createAlbumPage_def Let_def)
qed

lemma card_center_eq:
  "card_center i = (120 * (real (i mod 2) + 1) + 1060 * real (i mod 2) + 530,
                    400 + 120 * (real (i div 2) + 1) + 876 * real (i div 2) + 438)"
  by (simp add: card_center_def card_x_def card_y_def card_col_def card_row_def grid_values
      grid_padding_def grid_cols_def contentTopMargin_def)

subsection \<open>What the calls of an album page paint\<close>

lemma exec_all_append: "exec_all (xs @ ys) g = exec_all ys (exec_all xs g)"
  by (simp add: exec_all_def)

lemma exec_all_Nil [simp]: "exec_all [] g = g"
  by (simp add: exec_all_def)

lemma exec_all_Cons [simp]: "exec_all (c # cs) g = exec_all cs (exec c g)"
  by (simp add: exec_all_def)

lemma to_canvas_identity: "to_canvas identity_placement p = p"
  by (simp add: to_canvas_def identity_placement_def)

text \<open>Background and title paint two rectangles and two lines of text and leave the
  context untransformed.\<close>

lemma exec_page:
  "exec_all title_cmds (exec_all background_cmds fresh_gfx) = fresh_gfx\<lparr>paints := page_paints\<rparr>"
  by (simp add: background_cmds_def title_cmds_def fresh_gfx_def page_paints_def)

text \<open>One card, drawn in an untransformed context: it paints the card, its picture, its
  caption strip and its caption at the card's placement, and the context is
  untransformed again afterwards.\<close>

lemma exec_draw_card:
  assumes "transform g = identity_placement"
  shows "transform (exec_all (draw_card r i lbl img) g) = identity_placement"
    and "stack (exec_all (draw_card r i lbl img) g) = stack g"
    and "paints (exec_all (draw_card r i lbl img) g) = paints g @ card_paints r i lbl img"
  using assms
  by (simp_all add: draw_card_def card_paints_def card_placement_def to_canvas_def
      identity_placement_def imgHeight_def split: prod.splits)

lemma exec_cards:
  assumes "transform g = identity_placement"
  shows "transform (exec_all (concat (map (\<lambda>i. draw_card (random i) i (f i) (h i)) is)) g)
           = identity_placement
       \<and> stack (exec_all (concat (map (\<lambda>i. draw_card (random i) i (f i) (h i)) is)) g) = stack g
       \<and> paints (exec_all (concat (map (\<lambda>i. draw_card (random i) i (f i) (h i)) is)) g)
           = paints g @ concat (map (\<lambda>i. card_paints (random i) i (f i) (h i)) is)"
  using assms
proof (induction "is" arbitrary: g)
  case Nil
  then show ?case by simp
next
  case (Cons i "is")
  let ?g1 = "exec_all (draw_card (random i) i (f i) (h i)) g"
  note d = exec_draw_card[OF Cons.prems, of "random i" i "f i" "h i"]
  from Cons.IH[OF d(1)] d(2,3) show ?case
    by (simp add: exec_all_append)
qed

lemma album_gfx_loaded:
  assumes "promise_all (map (loadImage decode) (map snd imageData)) = Inr imgs"
  shows "map_option paints (album_gfx True decode random imageData)
           = Some (page_paints @ concat (map (\<lambda>i. card_paints (random i) i (fst (imageData ! i)) (imgs ! i))
                                           [0..<length imageData]))"
    and "map_option transform (album_gfx True decode random imageData) = Some identity_placement"
    and "map_option stack (album_gfx True decode random imageData) = Some []"
proof -
  let ?cards = "concat (map (\<lambda>i. draw_card (random i) i (fst (imageData ! i)) (imgs ! i))
                            [0..<length imageData])"
  have g: "album_gfx True decode random imageData
             = Some (exec_all ?cards (fresh_gfx\<lparr>paints := page_paints\<rparr>))"
  proof -
    have "snd (createAlbumPage True decode random imageData)
            = Inr (toDataURL (background_cmds @ title_cmds @ ?cards))"
      by (simp add: createAlbumPage_loaded[OF assms])
    then have "album_gfx True decode random imageData
                 = Some (exec_all (background_cmds @ title_cmds @ ?cards) fresh_gfx)"
      by (simp add: album_gfx_def toDataURL_def)
    then show ?thesis by (simp only: exec_all_append exec_page)
  qed
  have t: "transform (fresh_gfx\<lparr>paints := page_paints\<rparr>) = identity_placement"
    by (simp add: fresh_gfx_def)
  note c = exec_cards[OF t, of random "\<lambda>i. fst (imageData ! i)" "\<lambda>i. imgs ! i" "[0..<length imageData]"]
  from c show "map_option paints (album_gfx True decode random imageData)
           = Some (page_paints @ concat (map (\<lambda>i. card_paints (random i) i (fst (imageData ! i)) (imgs ! i))
                                           [0..<length imageData]))"
    unfolding g by simp
  from c show "map_option transform (album_gfx True decode random imageData) = Some identity_placement"
    unfolding g by simp
  from c show "map_option stack (album_gfx True decode random imageData) = Some []"
    unfolding g by (simp add: fresh_gfx_def)
qed

lemma concat_fixed_length:
  assumes "\<And>j. length (f j) = m"
  shows "length (concat (map f [0..<n])) = m * n"
  by (induction n) (simp_all add: assms)

lemma concat_fixed_nth:
  assumes "\<And>j. length (f j) = m" and "i < n" and "k < m"
  shows "concat (map f [0..<n]) ! (m * i + k) = f i ! k"
  using assms(2)
proof (induction n)
  case 0
  then show ?case by simp
next
  case (Suc n)
  note len = concat_fixed_length[of f m n, OF assms(1)]
  show ?case
  proof (cases "i < n")
    case True
    then have "Suc i \<le> n" by simp
    then have "m * Suc i \<le> m * n" by (rule mult_le_mono2)
    then have "m * i + m \<le> m * n" by simp
    with assms(3) have "m * i + k < m * n" by linarith
    with Suc.IH[OF True] len show ?thesis by (simp add: nth_append)
  next
    case False
    with Suc.prems have "i = n" by simp
    with len show ?thesis by (simp add: nth_append)
  qed
qed

text \<open>After the four paints of background and title, the paint of index \<open>4 i\<close> is the
  rounded rectangle of the card of entry \<open>i\<close>.\<close>

lemma album_paints_card:
  assumes "promise_all (map (loadImage decode) (map snd imageData)) = Inr imgs"
    and "i < length imageData"
  shows "map_option (\<lambda>g. paints g ! (4 + 4 * i)) (album_gfx True decode random imageData)
           = Some (PaintedRoundRect (card_placement (random i) i) (- cardWidth / 2) (- cardHeight / 2)
                     cardWidth cardHeight 40)"
proof -
  let ?f = "\<lambda>i. card_paints (random i) i (fst (imageData ! i)) (imgs ! i)"
  have l: "\<And>j. length (?f j) = 4" by (simp add: card_paints_def)
  from concat_fixed_nth[of ?f 4 i "length imageData" 0, OF l assms(2)]
  have n: "concat (map ?f [0..<length imageData]) ! (4 * i) = ?f i ! 0" by simp
  from album_gfx_loaded(1)[OF assms(1), of random] obtain g where
    g: "album_gfx True decode random imageData = Some g"
       "paints g = page_paints @ concat (map ?f [0..<length imageData])"
    by (cases "album_gfx True decode random imageData") auto
  have "paints g ! (4 + 4 * i) = concat (map ?f [0..<length imageData]) ! (4 * i)"
    unfolding g(2) by (simp add: nth_append page_paints_def)
  with n g(1) show ?thesis by (simp add: card_paints_def)
qed

text \<open>The rounded rectangle of a card has its centre at the point the origin is moved
  to, whatever the jitter; without jitter its corners are the card's corners.\<close>

lemma card_centre_painted:
  "rect_centre (card_placement r i) (- cardWidth / 2) (- cardHeight / 2) cardWidth cardHeight
     = card_center i"
  by (simp add: rect_centre_def to_canvas_def card_placement_def card_center_def)

lemma card_corners_unrotated:
  "to_canvas (card_placement (1 / 2) i) (- cardWidth / 2, - cardHeight / 2) = (card_x i, card_y i)"
  "to_canvas (card_placement (1 / 2) i) (- cardWidth / 2 + cardWidth, - cardHeight / 2 + cardHeight)
     = (card_x i + cardWidth, card_y i + cardHeight)"
  by (simp_all add: to_canvas_def card_placement_def)

text \<open>
  Claim C8. For a picture of positive natural size and a target of positive size: when
  the picture's aspect ratio is wider than the target's, the drawn height is the target
  height, the drawn width is at least the target width and the overflow is cut off
  equally on the left and on the right; when it is narrower or equal, the drawn width is
  the target width, the drawn height is at least the target height and the overflow is
  cut off equally above and below.
\<close>

theorem cover_fit_covers:
  assumes "0 < natW" "0 < natH" "0 < tgtW" "0 < tgtH"
    and "cover_fit natW natH tgtW tgtH = (drawW, drawH, offX, offY)"
  shows "(natW / natH > tgtW / tgtH \<longrightarrow>
            drawH = tgtH \<and> drawW \<ge> tgtW \<and> offY = 0 \<and> - offX = offX + drawW - tgtW)
       \<and> (natW / natH \<le> tgtW / tgtH \<longrightarrow>
            drawW = tgtW \<and> drawH \<ge> tgtH \<and> offX = 0 \<and> - offY = offY + drawH - tgtH)"
proof (cases "natW / natH > tgtW / tgtH")
  case True
  have "tgtW = tgtH * (tgtW / tgtH)" using assms(4) by simp
  also have "\<dots> \<le> tgtH * (natW / natH)"
    using True assms(4) by (intro mult_left_mono) simp_all
  finally have "tgtW \<le> tgtH * (natW / natH)" .
  with True assms(5) show ?thesis
    by (auto simp: cover_fit_def Let_def)
next
  case False
  from False have "natW / natH \<le> tgtW / tgtH" by simp
  then have "natW * tgtH \<le> tgtW * natH"
    using assms by (simp add: field_simps)
  then have "tgtH \<le> tgtW / (natW / natH)"
    using assms by (simp add: field_simps)
  with False assms(5) show ?thesis
    by (auto simp: cover_fit_def Let_def)
qed

theorem cover_fit_covers_witness:
  "cover_fit 1 1 imgWidth imgHeight = (67014 / 100, 67014 / 100, - (3942 / 100), 0)
   \<and> imgWidth / imgHeight < (1::real) / 1
   \<and> imgWidth \<le> 67014 / 100
   \<and> cover_fit 1 2 imgWidth imgHeight = (5913 / 10, 11826 / 10, 0, - (25623 / 100))
   \<and> (1::real) / 2 \<le> imgWidth / imgHeight
   \<and> imgHeight \<le> 11826 / 10"
proof -
  have c1: "cover_fit 1 1 imgWidth imgHeight = (67014 / 100, 67014 / 100, - (3942 / 100), 0)"
    by (simp add: cover_fit_def img_values Let_def)
  have c2: "cover_fit 1 2 imgWidth imgHeight = (5913 / 10, 11826 / 10, 0, - (25623 / 100))"
    by (simp add: cover_fit_def img_values Let_def)
  have p: "(0::real) < 1" "(0::real) < 2" "0 < imgWidth" "0 < imgHeight"
    by (simp_all add: img_values)
  have r: "imgWidth / imgHeight < (1::real) / 1" "(1::real) / 2 \<le> imgWidth / imgHeight"
    by (simp_all add: img_values)
  from cover_fit_covers [OF p(1) p(1) p(3) p(4) c1] cover_fit_covers [OF p(1) p(2) p(3) p(4) c2]
    c1 c2 r
  show ?thesis by blast
qed

text \<open>
  Claim C9. When all pictures load, the canvas ends up painted with background and
  title and then, for every entry in the order of the entries, with the card of that
  entry: a rounded rectangle of the card's size, the picture, the caption strip and the
  caption, all placed with the origin at the card's centre and turned by the card's
  jitter; every \<open>save()\<close> is undone by its \<open>restore()\<close>, so the context is
  untransformed at the end and no card moves another. After the four paints of
  background and title, paint \<open>4 i\<close> is the rounded rectangle of entry \<open>i\<close>. That
  rectangle has its centre at the centre of the grid position of row \<open>i div 2\<close> and
  column \<open>i mod 2\<close>, whatever the jitter, and without jitter its corners are
  \<open>(x, y)\<close> and \<open>(x + cardWidth, y + cardHeight)\<close>. Horizontally adjacent centres are
  \<open>padding + cellWidth\<close> apart and on one line, vertically adjacent centres are
  \<open>padding + cellHeight\<close> apart and in one column. A card is 90% of the cell height
  high, 3:4 wide, and centred in its cell. None of this depends on the number of entries.
\<close>

theorem grid_layout_in_input_order:
  assumes "promise_all (map (loadImage decode) (map snd imageData)) = Inr imgs"
  shows "map_option paints (album_gfx True decode random imageData)
           = Some (page_paints
                   @ concat (map (\<lambda>i. card_paints (random i) i (fst (imageData ! i)) (imgs ! i))
                               [0..<length imageData]))
       \<and> map_option transform (album_gfx True decode random imageData) = Some identity_placement
       \<and> map_option stack (album_gfx True decode random imageData) = Some []
       \<and> (\<forall>i<length imageData.
              map_option (\<lambda>g. paints g ! (4 + 4 * i)) (album_gfx True decode random imageData)
                = Some (PaintedRoundRect (card_placement (random i) i)
                          (- cardWidth / 2) (- cardHeight / 2) cardWidth cardHeight 40))
       \<and> (\<forall>r i. rect_centre (card_placement r i) (- cardWidth / 2) (- cardHeight / 2)
                    cardWidth cardHeight = card_center i)
       \<and> (\<forall>i. to_canvas (card_placement (1 / 2) i) (- cardWidth / 2, - cardHeight / 2)
                  = (card_x i, card_y i)
              \<and> to_canvas (card_placement (1 / 2) i)
                    (- cardWidth / 2 + cardWidth, - cardHeight / 2 + cardHeight)
                  = (card_x i + cardWidth, card_y i + cardHeight))
       \<and> (\<forall>i. card_row i = i div 2 \<and> card_col i = i mod 2)
       \<and> (\<forall>i. card_col i = 0 \<longrightarrow>
              fst (card_center (i + 1)) - fst (card_center i) = grid_padding + cellWidth
            \<and> snd (card_center (i + 1)) = snd (card_center i))
       \<and> (\<forall>i. snd (card_center (i + 2)) - snd (card_center i) = grid_padding + cellHeight
            \<and> fst (card_center (i + 2)) = fst (card_center i))
       \<and> cardHeight = 0.9 * cellHeight \<and> cardWidth / cardHeight = 3 / 4
       \<and> (\<forall>i. card_x i - cell_left i = (cell_left i + cellWidth) - (card_x i + cardWidth)
            \<and> card_y i - cell_top i = (cell_top i + cellHeight) - (card_y i + cardHeight)
            \<and> cell_left i \<le> card_x i \<and> cell_top i \<le> card_y i)"
proof -
  note a = album_gfx_loaded[OF assms, of random]
  have a': "\<forall>i<length imageData.
              map_option (\<lambda>g. paints g ! (4 + 4 * i)) (album_gfx True decode random imageData)
                = Some (PaintedRoundRect (card_placement (random i) i)
                          (- cardWidth / 2) (- cardHeight / 2) cardWidth cardHeight 40)"
    using album_paints_card[OF assms, of _ random] by blast
  have b: "\<forall>i. card_row i = i div 2 \<and> card_col i = i mod 2"
    by (simp add: card_row_def card_col_def grid_cols_def)
  have c: "\<forall>i. card_col i = 0 \<longrightarrow>
              fst (card_center (i + 1)) - fst (card_center i) = grid_padding + cellWidth
            \<and> snd (card_center (i + 1)) = snd (card_center i)"
  proof (intro allI impI)
    fix i assume "card_col i = 0"
    then have m: "i mod 2 = 0" by (simp add: card_col_def grid_cols_def)
    then have "(i + 1) mod 2 = 1" "(i + 1) div 2 = i div 2" by presburger+
    with m show "fst (card_center (i + 1)) - fst (card_center i) = grid_padding + cellWidth
            \<and> snd (card_center (i + 1)) = snd (card_center i)"
      by (simp add: card_center_eq grid_values grid_padding_def)
  qed
  have d: "\<forall>i. snd (card_center (i + 2)) - snd (card_center i) = grid_padding + cellHeight
            \<and> fst (card_center (i + 2)) = fst (card_center i)"
    by (simp add: card_center_eq grid_values grid_padding_def algebra_simps)
  have e: "cardHeight = 0.9 * cellHeight \<and> cardWidth / cardHeight = 3 / 4"
    by (simp add: grid_values)
  have f: "\<forall>i. card_x i - cell_left i = (cell_left i + cellWidth) - (card_x i + cardWidth)
            \<and> card_y i - cell_top i = (cell_top i + cellHeight) - (card_y i + cardHeight)
            \<and> cell_left i \<le> card_x i \<and> cell_top i \<le> card_y i"
    by (simp add: card_x_def card_y_def cell_left_def cell_top_def grid_values)
  from a a' b c d e f card_centre_painted card_corners_unrotated show ?thesis by blast
qed

theorem grid_layout_in_input_order_witness:
  "promise_all (map (loadImage (\<lambda>u. Some \<lparr>img_src = u, naturalWidth = 512, naturalHeight = 512\<rparr>))
      (map snd [(''a'', ''u0''), (''b'', ''u1''), (''c'', ''u2'')]))
     = Inr [\<lparr>img_src = ''u0'', naturalWidth = 512, naturalHeight = 512\<rparr>,
            \<lparr>img_src = ''u1'', naturalWidth = 512, naturalHeight = 512\<rparr>,
            \<lparr>img_src = ''u2'', naturalWidth = 512, naturalHeight = 512\<rparr>]
   \<and> map_option paints
        (album_gfx True (\<lambda>u. Some \<lparr>img_src = u, naturalWidth = 512, naturalHeight = 512\<rparr>)
           (\<lambda>i. 1 / 2) [(''a'', ''u0''), (''b'', ''u1''), (''c'', ''u2'')])
       = Some (page_paints
               @ card_paints (1 / 2) 0 ''a'' \<lparr>img_src = ''u0'', naturalWidth = 512, naturalHeight = 512\<rparr>
               @ card_paints (1 / 2) 1 ''b'' \<lparr>img_src = ''u1'', naturalWidth = 512, naturalHeight = 512\<rparr>
               @ card_paints (1 / 2) 2 ''c'' \<lparr>img_src = ''u2'', naturalWidth = 512, naturalHeight = 512\<rparr>)
   \<and> 2 < length [(''a'', ''u0''), (''b'', ''u1''), (''c'', ''u2'')]
   \<and> map_option (\<lambda>g. paints g ! (4 + 4 * 2))
        (album_gfx True (\<lambda>u. Some \<lparr>img_src = u, naturalWidth = 512, naturalHeight = 512\<rparr>)
           (\<lambda>i. 1 / 2) [(''a'', ''u0''), (''b'', ''u1''), (''c'', ''u2'')])
       = Some (PaintedRoundRect (card_placement (1 / 2) 2)
                 (- cardWidth / 2) (- cardHeight / 2) cardWidth cardHeight 40)
   \<and> card_placement (1 / 2) 0 = \<lparr>px = 650, py = 958, pangle = 0\<rparr>
   \<and> card_placement (1 / 2) 1 = \<lparr>px = 1830, py = 958, pangle = 0\<rparr>
   \<and> card_placement (1 / 2) 2 = \<lparr>px = 650, py = 1954, pangle = 0\<rparr>
   \<and> card_col 0 = 0
   \<and> fst (card_center (0 + 1)) - fst (card_center 0) = grid_padding + cellWidth
   \<and> snd (card_center (0 + 2)) - snd (card_center 0) = grid_padding + cellHeight
   \<and> grid_padding + cellWidth = 1180 \<and> grid_padding + cellHeight = 996"
proof -
  let ?decode = "\<lambda>u. Some \<lparr>img_src = u, naturalWidth = 512, naturalHeight = 512\<rparr>"
  let ?data = "[(''a'', ''u0''), (''b'', ''u1''), (''c'', ''u2'')]"
  have h: "promise_all (map (loadImage ?decode) (map snd ?data))
     = Inr [\<lparr>img_src = ''u0'', naturalWidth = 512, naturalHeight = 512\<rparr>,
            \<lparr>img_src = ''u1'', naturalWidth = 512, naturalHeight = 512\<rparr>,
            \<lparr>img_src = ''u2'', naturalWidth = 512, naturalHeight = 512\<rparr>]"
    by (simp add: loadImage_def)
  note t = grid_layout_in_input_order [OF h, of "\<lambda>i. 1 / 2"]
  note t6 = t [THEN conjunct2, THEN conjunct2, THEN conjunct2, THEN conjunct2, THEN conjunct2,
               THEN conjunct2, THEN conjunct2]
  have lt: "2 < length ?data" by simp
  have c: "card_col 0 = 0" by (simp add: card_col_def)
  have v: "grid_padding + cellWidth = 1180" "grid_padding + cellHeight = 996"
    by (simp_all add: grid_values grid_padding_def)
  have pl: "card_placement (1 / 2) 0 = \<lparr>px = 650, py = 958, pangle = 0\<rparr>"
    "card_placement (1 / 2) 1 = \<lparr>px = 1830, py = 958, pangle = 0\<rparr>"
    "card_placement (1 / 2) 2 = \<lparr>px = 650, py = 1954, pangle = 0\<rparr>"
    by (simp_all add: card_placement_def card_x_def card_y_def card_col_def card_row_def
        grid_cols_def grid_values grid_padding_def contentTopMargin_def)
  have p: "map_option paints (album_gfx True ?decode (\<lambda>i. 1 / 2) ?data)
       = Some (page_paints
               @ card_paints (1 / 2) 0 ''a'' \<lparr>img_src = ''u0'', naturalWidth = 512, naturalHeight = 512\<rparr>
               @ card_paints (1 / 2) 1 ''b'' \<lparr>img_src = ''u1'', naturalWidth = 512, naturalHeight = 512\<rparr>
               @ card_paints (1 / 2) 2 ''c'' \<lparr>img_src = ''u2'', naturalWidth = 512, naturalHeight = 512\<rparr>)"
    using t [THEN conjunct1] by (simp add: upt_rec numeral_eq_Suc)
  show ?thesis
  proof (intro conjI)
    show "promise_all (map (loadImage ?decode) (map snd ?data))
     = Inr [\<lparr>img_src = ''u0'', naturalWidth = 512, naturalHeight = 512\<rparr>,
            \<lparr>img_src = ''u1'', naturalWidth = 512, naturalHeight = 512\<rparr>,
            \<lparr>img_src = ''u2'', naturalWidth = 512, naturalHeight = 512\<rparr>]" by (rule h)
    show "map_option paints (album_gfx True ?decode (\<lambda>i. 1 / 2) ?data)
       = Some (page_paints
               @ card_paints (1 / 2) 0 ''a'' \<lparr>img_src = ''u0'', naturalWidth = 512, naturalHeight = 512\<rparr>
               @ card_paints (1 / 2) 1 ''b'' \<lparr>img_src = ''u1'', naturalWidth = 512, naturalHeight = 512\<rparr>
               @ card_paints (1 / 2) 2 ''c'' \<lparr>img_src = ''u2'', naturalWidth = 512, naturalHeight = 512\<rparr>)"
      by (rule p)
    show "2 < length ?data" by (rule lt)
    show "map_option (\<lambda>g. paints g ! (4 + 4 * 2)) (album_gfx True ?decode (\<lambda>i. 1 / 2) ?data)
       = Some (PaintedRoundRect (card_placement (1 / 2) 2)
                 (- cardWidth / 2) (- cardHeight / 2) cardWidth cardHeight 40)"
      by (rule t [THEN conjunct2, THEN conjunct2, THEN conjunct2, THEN conjunct1, THEN spec,
                  THEN mp, OF lt])
    show "card_placement (1 / 2) 0 = \<lparr>px = 650, py = 958, pangle = 0\<rparr>" by (rule pl(1))
    show "card_placement (1 / 2) 1 = \<lparr>px = 1830, py = 958, pangle = 0\<rparr>" by (rule pl(2))
    show "card_placement (1 / 2) 2 = \<lparr>px = 650, py = 1954, pangle = 0\<rparr>" by (rule pl(3))
    show "card_col 0 = 0" by (rule c)
    show "fst (card_center (0 + 1)) - fst (card_center 0) = grid_padding + cellWidth"
      by (rule t6 [THEN conjunct1, THEN spec, THEN mp, OF c, THEN conjunct1])
    show "snd (card_center (0 + 2)) - snd (card_center 0) = grid_padding + cellHeight"
      by (rule t6 [THEN conjunct2, THEN conjunct1, THEN spec, THEN conjunct1])
    show "grid_padding + cellWidth = 1180" by (rule v(1))
    show "grid_padding + cellHeight = 996" by (rule v(2))
  qed
qed

text \<open>
  Claim C10. The size of the input is never checked. An empty mapping gives a data URL
  of the background and the title alone, and nothing but these is painted. When every
  picture loads, a mapping of any size succeeds and every entry is painted, none left
  out: after the four paints of background and title, paint \<open>4 i\<close> is the rounded
  rectangle of entry \<open>i\<close>. That rectangle has its centre at the centre of the cell of
  row \<open>i div 2\<close>, and from index 6 on its top edge (taken without jitter: the centre
  less half the card height) lies below the bottom edge of the third row of cells, and
  indeed below the bottom edge of the canvas.
\<close>

theorem album_size_unchecked:
  "createAlbumPage True decode random [] =
     (map Draw (background_cmds @ title_cmds) @ [AwaitAll],
      Inr (toDataURL (background_cmds @ title_cmds)))
   \<and> map_option paints (album_gfx True decode random []) = Some page_paints
   \<and> (promise_all (map (loadImage decode) (map snd imageData)) = Inr imgs \<longrightarrow>
        map_option paints (album_gfx True decode random imageData)
          = Some (page_paints
                  @ concat (map (\<lambda>i. card_paints (random i) i (fst (imageData ! i)) (imgs ! i))
                              [0..<length imageData]))
      \<and> (\<forall>i<length imageData.
             map_option (\<lambda>g. paints g ! (4 + 4 * i)) (album_gfx True decode random imageData)
               = Some (PaintedRoundRect (card_placement (random i) i)
                         (- cardWidth / 2) (- cardHeight / 2) cardWidth cardHeight 40)))
   \<and> (\<forall>r i. rect_centre (card_placement r i) (- cardWidth / 2) (- cardHeight / 2)
                cardWidth cardHeight
              = (cell_left i + cellWidth / 2, cell_top i + cellHeight / 2)
            \<and> card_row i = i div 2
            \<and> cell_top i = contentTopMargin + grid_padding * (real (i div 2) + 1)
                             + cellHeight * real (i div 2))
   \<and> (\<forall>r. \<forall>i\<ge>6.
          cell_top 5 + cellHeight
            < snd (rect_centre (card_placement r i) (- cardWidth / 2) (- cardHeight / 2)
                     cardWidth cardHeight) - cardHeight / 2
        \<and> canvasHeight
            < snd (rect_centre (card_placement r i) (- cardWidth / 2) (- cardHeight / 2)
                     cardWidth cardHeight) - cardHeight / 2)"
proof -
  have a: "createAlbumPage True decode random [] =
     (map Draw (background_cmds @ title_cmds) @ [AwaitAll],
      Inr (toDataURL (background_cmds @ title_cmds)))"
    by (simp add: createAlbumPage_def Let_def card_cmds_def imagesWithLabels_def)
  have e0: "promise_all (map (loadImage decode) (map snd [])) = Inr []" by simp
  have a': "map_option paints (album_gfx True decode random []) = Some page_paints"
    using album_gfx_loaded(1)[OF e0, of random] by simp
  have b: "\<forall>r i. rect_centre (card_placement r i) (- cardWidth / 2) (- cardHeight / 2)
                cardWidth cardHeight
              = (cell_left i + cellWidth / 2, cell_top i + cellHeight / 2)
            \<and> card_row i = i div 2
            \<and> cell_top i = contentTopMargin + grid_padding * (real (i div 2) + 1)
                             + cellHeight * real (i div 2)"
    by (simp add: rect_centre_def to_canvas_def card_placement_def card_x_def card_y_def
        cell_left_def cell_top_def card_row_def grid_cols_def field_simps)
  have c: "\<forall>r. \<forall>i\<ge>6.
          cell_top 5 + cellHeight
            < snd (rect_centre (card_placement r i) (- cardWidth / 2) (- cardHeight / 2)
                     cardWidth cardHeight) - cardHeight / 2
        \<and> canvasHeight
            < snd (rect_centre (card_placement r i) (- cardWidth / 2) (- cardHeight / 2)
                     cardWidth cardHeight) - cardHeight / 2"
  proof (intro allI impI)
    fix r and i :: nat assume "6 \<le> i"
    then have "3 \<le> i div 2" by presburger
    then have "3 \<le> real (i div 2)" by linarith
    then show "cell_top 5 + cellHeight
            < snd (rect_centre (card_placement r i) (- cardWidth / 2) (- cardHeight / 2)
                     cardWidth cardHeight) - cardHeight / 2
        \<and> canvasHeight
            < snd (rect_centre (card_placement r i) (- cardWidth / 2) (- cardHeight / 2)
                     cardWidth cardHeight) - cardHeight / 2"
      by (simp add: rect_centre_def to_canvas_def card_placement_def cell_top_def card_y_def
          card_row_def grid_cols_def grid_values contentTopMargin_def grid_padding_def
          canvasHeight_def)
  qed
  have d: "map_option paints (album_gfx True decode random imageData)
          = Some (page_paints
                  @ concat (map (\<lambda>i. card_paints (random i) i (fst (imageData ! i)) (imgs ! i))
                              [0..<length imageData]))
      \<and> (\<forall>i<length imageData.
             map_option (\<lambda>g. paints g ! (4 + 4 * i)) (album_gfx True decode random imageData)
               = Some (PaintedRoundRect (card_placement (random i) i)
                         (- cardWidth / 2) (- cardHeight / 2) cardWidth cardHeight 40))"
    if h: "promise_all (map (loadImage decode) (map snd imageData)) = Inr imgs"
    using album_gfx_loaded(1)[OF h, of random] album_paints_card[OF h, of _ random] by blast
  from a a' b c d show ?thesis by blast
qed

theorem album_size_unchecked_witness:
  "promise_all (map (loadImage (\<lambda>u. Some \<lparr>img_src = u, naturalWidth = 512, naturalHeight = 512\<rparr>))
      (map snd [(''a'', ''u''), (''b'', ''u''), (''c'', ''u''), (''d'', ''u''), (''e'', ''u''),
                (''f'', ''u''), (''g'', ''u'')]))
     = Inr (replicate 7 \<lparr>img_src = ''u'', naturalWidth = 512, naturalHeight = 512\<rparr>)
   \<and> map_option paints
        (album_gfx True (\<lambda>u. Some \<lparr>img_src = u, naturalWidth = 512, naturalHeight = 512\<rparr>)
           (\<lambda>i. 1 / 2)
           [(''a'', ''u''), (''b'', ''u''), (''c'', ''u''), (''d'', ''u''), (''e'', ''u''),
            (''f'', ''u''), (''g'', ''u'')])
       = Some (page_paints
               @ card_paints (1 / 2) 0 ''a'' \<lparr>img_src = ''u'', naturalWidth = 512, naturalHeight = 512\<rparr>
               @ card_paints (1 / 2) 1 ''b'' \<lparr>img_src = ''u'', naturalWidth = 512, naturalHeight = 512\<rparr>
               @ card_paints (1 / 2) 2 ''c'' \<lparr>img_src = ''u'', naturalWidth = 512, naturalHeight = 512\<rparr>
               @ card_paints (1 / 2) 3 ''d'' \<lparr>img_src = ''u'', naturalWidth = 512, naturalHeight = 512\<rparr>
               @ card_paints (1 / 2) 4 ''e'' \<lparr>img_src = ''u'', naturalWidth = 512, naturalHeight = 512\<rparr>
               @ card_paints (1 / 2) 5 ''f'' \<lparr>img_src = ''u'', naturalWidth = 512, naturalHeight = 512\<rparr>
               @ card_paints (1 / 2) 6 ''g'' \<lparr>img_src = ''u'', naturalWidth = 512, naturalHeight = 512\<rparr>)
   \<and> 6 < length [(''a'', ''u''), (''b'', ''u''), (''c'', ''u''), (''d'', ''u''), (''e'', ''u''),
                   (''f'', ''u''), (''g'', ''u'')]
   \<and> map_option (\<lambda>g. paints g ! (4 + 4 * 6))
        (album_gfx True (\<lambda>u. Some \<lparr>img_src = u, naturalWidth = 512, naturalHeight = 512\<rparr>)
           (\<lambda>i. 1 / 2)
           [(''a'', ''u''), (''b'', ''u''), (''c'', ''u''), (''d'', ''u''), (''e'', ''u''),
            (''f'', ''u''), (''g'', ''u'')])
       = Some (PaintedRoundRect (card_placement (1 / 2) 6)
                 (- cardWidth / 2) (- cardHeight / 2) cardWidth cardHeight 40)
   \<and> card_placement (1 / 2) 6 = \<lparr>px = 650, py = 3946, pangle = 0\<rparr>
   \<and> (6::nat) \<le> 6
   \<and> canvasHeight
        < snd (rect_centre (card_placement (1 / 2) 6) (- cardWidth / 2) (- cardHeight / 2)
                 cardWidth cardHeight) - cardHeight / 2"
proof -
  let ?decode = "\<lambda>u. Some \<lparr>img_src = u, naturalWidth = 512, naturalHeight = 512\<rparr>"
  let ?data = "[(''a'', ''u''), (''b'', ''u''), (''c'', ''u''), (''d'', ''u''), (''e'', ''u''),
                (''f'', ''u''), (''g'', ''u'')]"
  let ?imgs = "replicate 7 \<lparr>img_src = ''u'', naturalWidth = 512, naturalHeight = 512\<rparr>"
  have h: "promise_all (map (loadImage ?decode) (map snd ?data)) = Inr ?imgs"
    by (simp add: loadImage_def numeral_eq_Suc)
  note t = album_size_unchecked [of ?decode "\<lambda>i. 1 / 2" ?data ?imgs]
  note t3 = t [THEN conjunct2, THEN conjunct2]
  have six: "(6::nat) \<le> 6" by simp
  have lt: "6 < length ?data" by simp
  have pl: "card_placement (1 / 2) 6 = \<lparr>px = 650, py = 3946, pangle = 0\<rparr>"
    by (simp add: card_placement_def card_x_def card_y_def card_col_def card_row_def
        grid_cols_def grid_values grid_padding_def contentTopMargin_def)
  have p: "map_option paints (album_gfx True ?decode (\<lambda>i. 1 / 2) ?data)
       = Some (page_paints
               @ card_paints (1 / 2) 0 ''a'' \<lparr>img_src = ''u'', naturalWidth = 512, naturalHeight = 512\<rparr>
               @ card_paints (1 / 2) 1 ''b'' \<lparr>img_src = ''u'', naturalWidth = 512, naturalHeight = 512\<rparr>
               @ card_paints (1 / 2) 2 ''c'' \<lparr>img_src = ''u'', naturalWidth = 512, naturalHeight = 512\<rparr>
               @ card_paints (1 / 2) 3 ''d'' \<lparr>img_src = ''u'', naturalWidth = 512, naturalHeight = 512\<rparr>
               @ card_paints (1 / 2) 4 ''e'' \<lparr>img_src = ''u'', naturalWidth = 512, naturalHeight = 512\<rparr>
               @ card_paints (1 / 2) 5 ''f'' \<lparr>img_src = ''u'', naturalWidth = 512, naturalHeight = 512\<rparr>
               @ card_paints (1 / 2) 6 ''g'' \<lparr>img_src = ''u'', naturalWidth = 512, naturalHeight = 512\<rparr>)"
    using t3 [THEN conjunct1, THEN mp, OF h, THEN conjunct1] by (simp add: upt_rec numeral_eq_Suc)
  show ?thesis
  proof (intro conjI)
    show "promise_all (map (loadImage ?decode) (map snd ?data)) = Inr ?imgs" by (rule h)
    show "map_option paints (album_gfx True ?decode (\<lambda>i. 1 / 2) ?data)
       = Some (page_paints
               @ card_paints (1 / 2) 0 ''a'' \<lparr>img_src = ''u'', naturalWidth = 512, naturalHeight = 512\<rparr>
               @ card_paints (1 / 2) 1 ''b'' \<lparr>img_src = ''u'', naturalWidth = 512, naturalHeight = 512\<rparr>
               @ card_paints (1 / 2) 2 ''c'' \<lparr>img_src = ''u'', naturalWidth = 512, naturalHeight = 512\<rparr>
               @ card_paints (1 / 2) 3 ''d'' \<lparr>img_src = ''u'', naturalWidth = 512, naturalHeight = 512\<rparr>
               @ card_paints (1 / 2) 4 ''e'' \<lparr>img_src = ''u'', naturalWidth = 512, naturalHeight = 512\<rparr>
               @ card_paints (1 / 2) 5 ''f'' \<lparr>img_src = ''u'', naturalWidth = 512, naturalHeight = 512\<rparr>
               @ card_paints (1 / 2) 6 ''g'' \<lparr>img_src = ''u'', naturalWidth = 512, naturalHeight = 512\<rparr>)"
      by (rule p)
    show "6 < length ?data" by (rule lt)
    show "map_option (\<lambda>g. paints g ! (4 + 4 * 6)) (album_gfx True ?decode (\<lambda>i. 1 / 2) ?data)
       = Some (PaintedRoundRect (card_placement (1 / 2) 6)
                 (- cardWidth / 2) (- cardHeight / 2) cardWidth cardHeight 40)"
      by (rule t3 [THEN conjunct1, THEN mp, OF h, THEN conjunct2, THEN spec, THEN mp, OF lt])
    show "card_placement (1 / 2) 6 = \<lparr>px = 650, py = 3946, pangle = 0\<rparr>" by (rule pl)
    show "(6::nat) \<le> 6" by (rule six)
    show "canvasHeight
        < snd (rect_centre (card_placement (1 / 2) 6) (- cardWidth / 2) (- cardHeight / 2)
                 cardWidth cardHeight) - cardHeight / 2"
      by (rule t3 [THEN conjunct2, THEN conjunct2, THEN spec, THEN spec, THEN mp, OF six,
                   THEN conjunct2])
  qed
qed

section \<open>Regenerating a pending label\<close>

text \<open>
  Claim C4. Regenerating a label whose entry is pending returns at once: no request is
  issued and the state, the results with it, is what it was.
\<close>

theorem regenerate_pending_noop:
  "map_option status (map_of (generatedImages a) lbl) = Some Pending
   \<Longrightarrow> handleRegenerateEmotion_call es lbl a = (a, None)"
  by (simp add: handleRegenerateEmotion_call_def split: option.splits)

theorem regenerate_pending_noop_witness:
  "map_option status (map_of (generatedImages
       \<lparr>uploadedImage = Some ''data:image/png;base64,AAAA'',
        generatedImages = initialImages EMOTIONS,
        isLoading = True, isDownloading = False, appState = Generating\<rparr>) (label (EMOTIONS ! 2)))
     = Some Pending
   \<and> handleRegenerateEmotion_call EMOTIONS (label (EMOTIONS ! 2))
       \<lparr>uploadedImage = Some ''data:image/png;base64,AAAA'',
        generatedImages = initialImages EMOTIONS,
        isLoading = True, isDownloading = False, appState = Generating\<rparr>
     = (\<lparr>uploadedImage = Some ''data:image/png;base64,AAAA'',
        generatedImages = initialImages EMOTIONS,
        isLoading = True, isDownloading = False, appState = Generating\<rparr>, None)"
proof -
  have h: "map_option status (map_of (generatedImages
       \<lparr>uploadedImage = Some ''data:image/png;base64,AAAA'',
        generatedImages = initialImages EMOTIONS,
        isLoading = True, isDownloading = False, appState = Generating\<rparr>) (label (EMOTIONS ! 2)))
     = Some Pending"
    by (simp add: EMOTIONS_def initialImages_def pending_entry_def)
  show ?thesis
    using h regenerate_pending_noop [OF h, of EMOTIONS] by simp
qed

section \<open>Load failures in the compositor\<close>

lemma promise_all_loadImage_fail:
  "\<exists>u \<in> set urls. decode u = None \<Longrightarrow>
   promise_all (map (loadImage decode) urls) = Inl ImageLoadFailed"
proof (induction urls)
  case Nil
  then show ?case by simp
next
  case (Cons u urls)
  show ?case
  proof (cases "decode u")
    case None
    then show ?thesis by (simp add: loadImage_def)
  next
    case (Some img)
    with Cons show ?thesis by (auto simp: loadImage_def)
  qed
qed

lemma promise_all_loadImage_ok:
  "\<forall>u \<in> set urls. decode u \<noteq> None \<Longrightarrow>
   promise_all (map (loadImage decode) urls) = Inr (map (\<lambda>u. the (decode u)) urls)"
  by (induction urls) (auto simp: loadImage_def)

text \<open>
  Claim C7, as amended. The background and the title are painted first; then all loads
  are started, one per entry and in the order of the entries, and only then does the
  compositor wait. If any URL fails to load, the call fails with the load error, returns
  no data URL, and nothing more is drawn. If the call returns a data URL, every URL has
  loaded, and all cards were drawn after the wait.
\<close>

theorem load_failure_aborts_composition:
  assumes "createAlbumPage True decode random imageData = (effs, res)"
  shows "((\<exists>u \<in> set (map snd imageData). decode u = None) \<longrightarrow>
            res = Inl ImageLoadFailed
          \<and> effs = map Draw (background_cmds @ title_cmds) @ map LoadImage (map snd imageData) @ [AwaitAll])
       \<and> (\<forall>d. res = Inr d \<longrightarrow>
            (\<forall>u \<in> set (map snd imageData). decode u \<noteq> None)
          \<and> (\<exists>cards. effs = map Draw (background_cmds @ title_cmds) @ map LoadImage (map snd imageData)
                               @ [AwaitAll] @ map Draw cards
                     \<and> d = toDataURL (background_cmds @ title_cmds @ cards)))"
proof (cases "\<exists>u \<in> set (map snd imageData). decode u = None")
  case True
  from promise_all_loadImage_fail[OF True] assms
  have "res = Inl ImageLoadFailed"
    and "effs = map Draw (background_cmds @ title_cmds) @ map LoadImage (map snd imageData) @ [AwaitAll]"
    by (auto simp: createAlbumPage_def Let_def)
  with True show ?thesis by auto
next
  case False
  then have ok: "\<forall>u \<in> set (map snd imageData). decode u \<noteq> None" by simp
  from createAlbumPage_loaded[OF promise_all_loadImage_ok[OF ok], of random] assms False
  show ?thesis by auto
qed

theorem load_failure_aborts_composition_witness:
  "createAlbumPage True (\<lambda>u. if u = ''bad'' then None
                              else Some \<lparr>img_src = u, naturalWidth = 1, naturalHeight = 1\<rparr>)
     (\<lambda>i. 1 / 2) [(''a'', ''ok''), (''b'', ''bad''), (''c'', ''ok'')]
   = (map Draw (background_cmds @ title_cmds)
        @ [LoadImage ''ok'', LoadImage ''bad'', LoadImage ''ok'', AwaitAll],
      Inl ImageLoadFailed)"
proof -
  obtain effs res where c: "createAlbumPage True (\<lambda>u. if u = ''bad'' then None
                              else Some \<lparr>img_src = u, naturalWidth = 1, naturalHeight = 1\<rparr>)
     (\<lambda>i. 1 / 2) [(''a'', ''ok''), (''b'', ''bad''), (''c'', ''ok'')] = (effs, res)"
    by (cases "createAlbumPage True (\<lambda>u. if u = ''bad'' then None
                              else Some \<lparr>img_src = u, naturalWidth = 1, naturalHeight = 1\<rparr>)
     (\<lambda>i. 1 / 2) [(''a'', ''ok''), (''b'', ''bad''), (''c'', ''ok'')]") 
  from load_failure_aborts_composition [OF c] c show ?thesis by simp
qed

text \<open>
  Claim C7 as stated says that the compositor draws nothing before it has waited for the
  loads. With one invalid entry among valid ones, the canvas has already received the
  background and the title when the loads are started.
\<close>

theorem draws_before_loading_counterexample:
  "\<not> draws_nothing_before_await
       (fst (createAlbumPage True (\<lambda>u. if u = ''bad'' then None
                              else Some \<lparr>img_src = u, naturalWidth = 1, naturalHeight = 1\<rparr>)
              (\<lambda>i. 1 / 2) [(''a'', ''ok''), (''b'', ''bad''), (''c'', ''ok'')]))"
  by (simp add: createAlbumPage_def Let_def loadImage_def draws_nothing_before_await_def
      background_cmds_def)

section \<open>Album export\<close>

lemma update_fresh: "k \<notin> fst ` set al \<Longrightarrow> AList.update k v al = al @ [(k, v)]"
  by (induction al) auto

lemma album_fold:
  assumes "distinct (map fst xs)" "fst ` set acc \<inter> fst ` set xs = {}"
    and "\<forall>(lbl, image) \<in> set xs. truthy (url image)"
  shows "foldl (\<lambda>acc (lbl, image).
              case url image of
                None \<Rightarrow> acc
              | Some u \<Rightarrow> if u = [] then acc else AList.update lbl u acc) acc xs
         = acc @ map (\<lambda>(lbl, image). (lbl, the (url image))) xs"
  using assms
proof (induction xs arbitrary: acc)
  case Nil
  then show ?case by simp
next
  case (Cons x xs)
  obtain lbl image where x: "x = (lbl, image)" by (cases x)
  from Cons.prems(3) x obtain u where u: "url image = Some u" "u \<noteq> []"
    by (auto simp: truthy_def split: option.splits)
  from Cons.prems(2) x have fresh: "lbl \<notin> fst ` set acc" by auto
  have step: "AList.update lbl u acc = acc @ [(lbl, u)]"
    by (rule update_fresh[OF fresh])
  have disj: "fst ` set (acc @ [(lbl, u)]) \<inter> fst ` set xs = {}"
    using Cons.prems(1,2) x by (auto simp: image_iff)
  have "foldl (\<lambda>acc (lbl, image).
              case url image of
                None \<Rightarrow> acc
              | Some u \<Rightarrow> if u = [] then acc else AList.update lbl u acc) (acc @ [(lbl, u)]) xs
         = (acc @ [(lbl, u)]) @ map (\<lambda>(lbl, image). (lbl, the (url image))) xs"
    using Cons.prems(1,3) by (intro Cons.IH[OF _ disj]) auto
  then show ?case using x u step by simp
qed

lemma album_input_distinct:
  assumes "distinct (map fst gi)"
  shows "album_input gi = map (\<lambda>(lbl, image). (lbl, the (url image))) (done_with_url gi)"
proof -
  have d: "distinct (map fst (done_with_url gi))"
    unfolding done_with_url_def using assms by (rule distinct_map_filter)
  have t: "\<forall>(lbl, image) \<in> set (done_with_url gi). truthy (url image)"
    by (auto simp: done_with_url_def)
  from album_fold[OF d _ t, of "[]"] show ?thesis
    by (simp add: album_input_def done_with_url_def)
qed

lemma handleDownloadAlbum_results:
  "generatedImages (fst (handleDownloadAlbum es has_ctx decode random a)) = generatedImages a"
  by (simp add: handleDownloadAlbum_def Let_def split: prod.splits sum.splits)

lemma handleDownloadAlbum_download:
  assumes "Download f d \<in> set (snd (handleDownloadAlbum es has_ctx decode random a))"
  shows "length es \<le> length (album_input (generatedImages a))"
  using assms
  by (auto simp: handleDownloadAlbum_def Let_def split: if_splits prod.splits sum.splits)

lemma all_labels_done:
  assumes dk: "distinct (map fst gi)" and de: "distinct (map label es)"
    and sub: "set (map fst gi) \<subseteq> set (map label es)"
    and len: "length es \<le> length (done_with_url gi)"
    and e: "e \<in> set es"
  shows "\<exists>g. map_of gi (label e) = Some g \<and> status g = Done \<and> truthy (url g)"
proof -
  let ?F = "done_with_url gi"
  have dF: "distinct (map fst ?F)"
    unfolding done_with_url_def using dk by (rule distinct_map_filter)
  have subF: "set (map fst ?F) \<subseteq> set (map label es)"
    using sub by (auto simp: done_with_url_def)
  have "card (set (map label es)) = length es"
    using de by (metis distinct_card length_map)
  moreover have "card (set (map fst ?F)) = length ?F"
    using dF by (metis distinct_card length_map)
  ultimately have "card (set (map label es)) \<le> card (set (map fst ?F))"
    using len by simp
  with subF have "set (map fst ?F) = set (map label es)"
    by (intro card_seteq) auto
  with e have "label e \<in> set (map fst ?F)" by auto
  then obtain g where g: "(label e, g) \<in> set ?F" by auto
  then have "(label e, g) \<in> set gi" "status g = Done" "truthy (url g)"
    by (auto simp: done_with_url_def)
  with dk show ?thesis by auto
qed

text \<open>
  Claim C6. For results with distinct keys: when fewer entries are done with a URL than
  there are emotions, the export only shows the notice, composing and downloading
  nothing; the results are never changed by an export; and when the keys of the results
  are labels of the (distinct) emotions, an album is downloaded only if every emotion's
  entry is done with a URL.
\<close>

theorem export_rejected_until_all_done:
  assumes "distinct (map fst (generatedImages a))"
  shows "(length (done_with_url (generatedImages a)) < length es \<longrightarrow>
            handleDownloadAlbum es has_ctx decode random a
              = (a\<lparr>isDownloading := False\<rparr>, [Alert StillGenerating]))
       \<and> generatedImages (fst (handleDownloadAlbum es has_ctx decode random a)) = generatedImages a
       \<and> (distinct (map label es) \<and> set (map fst (generatedImages a)) \<subseteq> set (map label es)
            \<and> (\<exists>f d. Download f d \<in> set (snd (handleDownloadAlbum es has_ctx decode random a)))
          \<longrightarrow> (\<forall>e \<in> set es. \<exists>g. map_of (generatedImages a) (label e) = Some g
                                  \<and> status g = Done \<and> truthy (url g)))"
proof -
  have len: "length (album_input (generatedImages a)) = length (done_with_url (generatedImages a))"
    by (simp add: album_input_distinct[OF assms])
  have 1: "length (done_with_url (generatedImages a)) < length es \<longrightarrow>
            handleDownloadAlbum es has_ctx decode random a
              = (a\<lparr>isDownloading := False\<rparr>, [Alert StillGenerating])"
    using len by (simp add: handleDownloadAlbum_def Let_def)
  have 3: "\<forall>e \<in> set es. \<exists>g. map_of (generatedImages a) (label e) = Some g
                                  \<and> status g = Done \<and> truthy (url g)"
    if "distinct (map label es)" "set (map fst (generatedImages a)) \<subseteq> set (map label es)"
      "Download f d \<in> set (snd (handleDownloadAlbum es has_ctx decode random a))" for f d
    using all_labels_done[OF assms that(1,2)] handleDownloadAlbum_download[OF that(3)] len
    by simp
  from 1 3 handleDownloadAlbum_results show ?thesis by blast
qed

lemma EMOTIONS_labels_distinct: "distinct (map label EMOTIONS)"
  by (simp add: EMOTIONS_def)

lemma example_download:
  "\<exists>f d. Download f d \<in> set (snd (handleDownloadAlbum EMOTIONS True
        (\<lambda>u. Some \<lparr>img_src = u, naturalWidth = 512, naturalHeight = 512\<rparr>) (\<lambda>i. 1 / 2)
        \<lparr>uploadedImage = Some ''data:image/png;base64,AAAA'',
         generatedImages = map (\<lambda>e. (label e, done_entry ''data:image/png;base64,BBBB'')) EMOTIONS,
         isLoading = False, isDownloading = True, appState = ResultsShown\<rparr>))"
proof -
  let ?gi = "map (\<lambda>e. (label e, done_entry ''data:image/png;base64,BBBB'')) EMOTIONS"
  let ?decode = "\<lambda>u. Some \<lparr>img_src = u, naturalWidth = 512, naturalHeight = 512\<rparr>"
  have d: "distinct (map fst ?gi)"
    using EMOTIONS_labels_distinct by (simp add: comp_def)
  have ai: "album_input ?gi = map (\<lambda>e. (label e, ''data:image/png;base64,BBBB'')) EMOTIONS"
    unfolding album_input_distinct[OF d]
    by (simp add: done_with_url_def done_entry_def truthy_def comp_def)
  have ok: "\<forall>u \<in> set (map snd (album_input ?gi)). ?decode u \<noteq> None" by simp
  note l = createAlbumPage_loaded[OF promise_all_loadImage_ok[OF ok], of "\<lambda>i. 1 / 2"]
  have len: "\<not> length (album_input ?gi) < length EMOTIONS" by (simp add: ai)
  show ?thesis
    using len by (simp add: handleDownloadAlbum_def Let_def l)
qed

theorem export_rejected_until_all_done_witness:
  "distinct (map fst (generatedImages
      \<lparr>uploadedImage = Some ''data:image/png;base64,AAAA'',
       generatedImages = AList.update (label (EMOTIONS ! 0)) (done_entry ''data:image/png;base64,BBBB'')
                           (initialImages EMOTIONS),
       isLoading = False, isDownloading = True, appState = ResultsShown\<rparr>))
   \<and> length (done_with_url (generatedImages
      \<lparr>uploadedImage = Some ''data:image/png;base64,AAAA'',
       generatedImages = AList.update (label (EMOTIONS ! 0)) (done_entry ''data:image/png;base64,BBBB'')
                           (initialImages EMOTIONS),
       isLoading = False, isDownloading = True, appState = ResultsShown\<rparr>)) < length EMOTIONS
   \<and> handleDownloadAlbum EMOTIONS True
        (\<lambda>u. Some \<lparr>img_src = u, naturalWidth = 512, naturalHeight = 512\<rparr>) (\<lambda>i. 1 / 2)
      \<lparr>uploadedImage = Some ''data:image/png;base64,AAAA'',
       generatedImages = AList.update (label (EMOTIONS ! 0)) (done_entry ''data:image/png;base64,BBBB'')
                           (initialImages EMOTIONS),
       isLoading = False, isDownloading = True, appState = ResultsShown\<rparr>
     = (\<lparr>uploadedImage = Some ''data:image/png;base64,AAAA'',
       generatedImages = AList.update (label (EMOTIONS ! 0)) (done_entry ''data:image/png;base64,BBBB'')
                           (initialImages EMOTIONS),
       isLoading = False, isDownloading = False, appState = ResultsShown\<rparr>,
        [Alert StillGenerating])
   \<and> (\<exists>f d. Download f d \<in> set (snd (handleDownloadAlbum EMOTIONS True
        (\<lambda>u. Some \<lparr>img_src = u, naturalWidth = 512, naturalHeight = 512\<rparr>) (\<lambda>i. 1 / 2)
        \<lparr>uploadedImage = Some ''data:image/png;base64,AAAA'',
         generatedImages = map (\<lambda>e. (label e, done_entry ''data:image/png;base64,BBBB'')) EMOTIONS,
         isLoading = False, isDownloading = True, appState = ResultsShown\<rparr>)))
   \<and> (\<exists>g.
          map_of (generatedImages
            \<lparr>uploadedImage = Some ''data:image/png;base64,AAAA'',
             generatedImages = map (\<lambda>e. (label e, done_entry ''data:image/png;base64,BBBB'')) EMOTIONS,
             isLoading = False, isDownloading = True, appState = ResultsShown\<rparr>) (label (EMOTIONS ! 5))
            = Some g
          \<and> status g = Done \<and> truthy (url g))"
proof -
  let ?a = "\<lparr>uploadedImage = Some ''data:image/png;base64,AAAA'',
       generatedImages = AList.update (label (EMOTIONS ! 0)) (done_entry ''data:image/png;base64,BBBB'')
                           (initialImages EMOTIONS),
       isLoading = False, isDownloading = True, appState = ResultsShown\<rparr>"
  let ?b = "\<lparr>uploadedImage = Some ''data:image/png;base64,AAAA'',
         generatedImages = map (\<lambda>e. (label e, done_entry ''data:image/png;base64,BBBB'')) EMOTIONS,
         isLoading = False, isDownloading = True, appState = ResultsShown\<rparr>"
  let ?decode = "\<lambda>u. Some \<lparr>img_src = u, naturalWidth = 512, naturalHeight = 512\<rparr>"
  have d: "distinct (map fst (generatedImages ?a))"
    by (simp add: EMOTIONS_def initialImages_def)
  have l: "length (done_with_url (generatedImages ?a)) < length EMOTIONS"
    by (simp add: EMOTIONS_def initialImages_def done_with_url_def done_entry_def pending_entry_def
        truthy_def)
  note ta = export_rejected_until_all_done [OF d, of EMOTIONS True ?decode "\<lambda>i. 1 / 2"]
  have db: "distinct (map fst (generatedImages ?b))"
    using EMOTIONS_labels_distinct by (simp add: comp_def)
  have sub: "set (map fst (generatedImages ?b)) \<subseteq> set (map label EMOTIONS)"
    by (simp add: comp_def)
  note tb = export_rejected_until_all_done [OF db, of EMOTIONS True ?decode "\<lambda>i. 1 / 2"]
  show ?thesis
  proof (intro conjI)
    show "distinct (map fst (generatedImages ?a))" by (rule d)
    show "length (done_with_url (generatedImages ?a)) < length EMOTIONS" by (rule l)
    show "handleDownloadAlbum EMOTIONS True ?decode (\<lambda>i. 1 / 2) ?a
            = (\<lparr>uploadedImage = Some ''data:image/png;base64,AAAA'',
       generatedImages = AList.update (label (EMOTIONS ! 0)) (done_entry ''data:image/png;base64,BBBB'')
                           (initialImages EMOTIONS),
       isLoading = False, isDownloading = False, appState = ResultsShown\<rparr>,
        [Alert StillGenerating])"
      using ta [THEN conjunct1, THEN mp, OF l] by simp
    show "\<exists>f d. Download f d \<in> set (snd (handleDownloadAlbum EMOTIONS True ?decode (\<lambda>i. 1 / 2) ?b))"
      by (rule example_download)
    have m: "EMOTIONS ! 5 \<in> set EMOTIONS" by (simp add: EMOTIONS_def)
    show "\<exists>g. map_of (generatedImages ?b) (label (EMOTIONS ! 5)) = Some g
            \<and> status g = Done \<and> truthy (url g)"
      by (rule tb [THEN conjunct2, THEN conjunct2, THEN mp,
                   OF conjI [OF EMOTIONS_labels_distinct conjI [OF sub example_download]],
                   THEN bspec, OF m])
  qed
qed

section \<open>Writes to the results\<close>

lemma entry_ok_literals:
  "entry_ok pending_entry" "entry_ok (done_entry u)" "entry_ok (error_entry m)"
  by (simp_all add: entry_ok_def pending_entry_def done_entry_def error_entry_def)

lemma entry_ok_settled: "entry_ok (settled_entry out)"
  by (cases out) (simp_all add: settled_entry_def entry_ok_literals)

lemma results_ok_update:
  "results_ok gi \<Longrightarrow> entry_ok g \<Longrightarrow> results_ok (AList.update k g gi)"
  by (induction gi) (auto simp: results_ok_def)

lemma initialImages_fold:
  "results_ok acc \<Longrightarrow>
   results_ok (foldl (\<lambda>acc emotion. AList.update (label emotion) pending_entry acc) acc es)"
  by (induction es arbitrary: acc) (simp_all add: results_ok_update entry_ok_literals)

lemma results_ok_initialImages: "results_ok (initialImages es)"
  unfolding initialImages_def by (rule initialImages_fold) (simp add: results_ok_def)

lemma map_of_initial_fold:
  "map_of (foldl (\<lambda>acc emotion. AList.update (label emotion) pending_entry acc) acc es) l
     = (if l \<in> label ` set es then Some pending_entry else map_of acc l)"
  by (induction es arbitrary: acc) (auto simp: update_conv')

lemma map_of_initialImages:
  "map_of (initialImages es) l = (if l \<in> label ` set es then Some pending_entry else None)"
  by (simp add: initialImages_def map_of_initial_fold)

lemma generatedImages_worker_loop [simp]:
  "generatedImages (worker_loop w s) = generatedImages s"
  by (simp add: worker_loop_def processEmotion_call_def Let_def split: list.splits)

lemma generatedImages_start_workers [simp]:
  "generatedImages (start_workers k s) = generatedImages s"
  by (induction k) (simp_all add: start_workers_def)

lemma results_ok_step:
  "step ev s = Some s' \<Longrightarrow> results_ok (generatedImages s) \<Longrightarrow> results_ok (generatedImages s')"
  by (cases ev)
     (auto simp: processEmotion_settled_def results_ok_update entry_ok_settled
           split: option.splits if_splits)

lemma results_ok_run:
  "run_events evs s = Some s' \<Longrightarrow> results_ok (generatedImages s) \<Longrightarrow> results_ok (generatedImages s')"
proof (induction evs arbitrary: s)
  case Nil
  then show ?case by simp
next
  case (Cons ev evs)
  then show ?case by (auto split: option.splits dest: results_ok_step)
qed

lemma results_ok_handleGenerateClick:
  "handleGenerateClick es a = Some s0 \<Longrightarrow> results_ok (generatedImages s0)"
  by (auto simp: handleGenerateClick_def initial_run_def results_ok_initialImages
           split: option.splits if_splits)

lemma regenerate_call_cases:
  "handleRegenerateEmotion_call es lbl a = (a, None)
   \<or> (\<exists>r. handleRegenerateEmotion_call es lbl a
           = (a\<lparr>generatedImages := AList.update lbl pending_entry (generatedImages a)\<rparr>, Some r))"
  by (simp add: handleRegenerateEmotion_call_def split: option.splits)

text \<open>
  Claim C3. Every write of an entry keeps the results consistent: the initial entries
  are all pending and consistent, so is every state of a pipeline run, and the settlement
  of a pipeline request, the reset by a regenerate and the settlement of a regenerate
  preserve consistency. Each of these writes replaces the whole entry of one label, the
  new entry not depending on the old one, and leaves the entries of all other labels as
  they were.
\<close>

theorem writes_keep_entries_consistent:
  "results_ok (initialImages es)
   \<and> (\<forall>l. map_of (initialImages es) l = (if l \<in> label ` set es then Some pending_entry else None))
   \<and> (handleGenerateClick es a = Some s0 \<and> run_events evs s0 = Some s
        \<longrightarrow> results_ok (generatedImages s))
   \<and> (results_ok (generatedImages s) \<longrightarrow>
          results_ok (generatedImages (processEmotion_settled t r out s)))
   \<and> map_of (generatedImages (processEmotion_settled t r out s))
        = (map_of (generatedImages s))(req_label r \<mapsto> settled_entry out)
   \<and> (results_ok (generatedImages a) \<longrightarrow>
          results_ok (generatedImages (fst (handleRegenerateEmotion_call es lbl a)))
        \<and> results_ok (generatedImages (handleRegenerateEmotion_settled lbl out a)))
   \<and> (snd (handleRegenerateEmotion_call es lbl a) = None
        \<longrightarrow> fst (handleRegenerateEmotion_call es lbl a) = a)
   \<and> (snd (handleRegenerateEmotion_call es lbl a) \<noteq> None
        \<longrightarrow> map_of (generatedImages (fst (handleRegenerateEmotion_call es lbl a)))
              = (map_of (generatedImages a))(lbl \<mapsto> pending_entry))
   \<and> map_of (generatedImages (handleRegenerateEmotion_settled lbl out a))
        = (map_of (generatedImages a))(lbl \<mapsto> settled_entry out)
   \<and> entry_ok pending_entry \<and> entry_ok (settled_entry out)"
proof -
  have 3: "handleGenerateClick es a = Some s0 \<and> run_events evs s0 = Some s
        \<longrightarrow> results_ok (generatedImages s)"
    using results_ok_run results_ok_handleGenerateClick by blast
  have 4: "results_ok (generatedImages s) \<longrightarrow>
          results_ok (generatedImages (processEmotion_settled t r out s))"
    by (simp add: processEmotion_settled_def results_ok_update entry_ok_settled)
  have 5: "map_of (generatedImages (processEmotion_settled t r out s))
        = (map_of (generatedImages s))(req_label r \<mapsto> settled_entry out)"
    by (simp add: processEmotion_settled_def update_conv')
  have 6: "results_ok (generatedImages a) \<longrightarrow>
          results_ok (generatedImages (fst (handleRegenerateEmotion_call es lbl a)))
        \<and> results_ok (generatedImages (handleRegenerateEmotion_settled lbl out a))"
    using regenerate_call_cases[of es lbl a]
    by (auto simp: handleRegenerateEmotion_settled_def results_ok_update entry_ok_settled
        entry_ok_literals)
  have 7: "snd (handleRegenerateEmotion_call es lbl a) = None
        \<longrightarrow> fst (handleRegenerateEmotion_call es lbl a) = a"
    using regenerate_call_cases[of es lbl a] by auto
  have 8: "snd (handleRegenerateEmotion_call es lbl a) \<noteq> None
        \<longrightarrow> map_of (generatedImages (fst (handleRegenerateEmotion_call es lbl a)))
              = (map_of (generatedImages a))(lbl \<mapsto> pending_entry)"
    using regenerate_call_cases[of es lbl a] by (auto simp: update_conv')
  have 9: "map_of (generatedImages (handleRegenerateEmotion_settled lbl out a))
        = (map_of (generatedImages a))(lbl \<mapsto> settled_entry out)"
    by (simp add: handleRegenerateEmotion_settled_def update_conv')
  from results_ok_initialImages map_of_initialImages 3 4 5 6 7 8 9 entry_ok_literals(1)
    entry_ok_settled
  show ?thesis by blast
qed

theorem writes_keep_entries_consistent_witness:
  "(\<exists>s0. handleGenerateClick EMOTIONS
            \<lparr>uploadedImage = Some ''data:image/png;base64,AAAA'',
             generatedImages = initialImages EMOTIONS,
             isLoading = False, isDownloading = False, appState = ResultsShown\<rparr> = Some s0
         \<and> run_events [] s0 = Some s0
         \<and> results_ok (generatedImages s0))
   \<and> results_ok (generatedImages
         \<lparr>uploadedImage = Some ''data:image/png;base64,AAAA'',
          generatedImages = initialImages EMOTIONS,
          isLoading = False, isDownloading = False, appState = ResultsShown\<rparr>)
   \<and> results_ok (generatedImages (handleRegenerateEmotion_settled (label (EMOTIONS ! 3))
         (Fulfilled ''data:image/png;base64,CCCC'')
         \<lparr>uploadedImage = Some ''data:image/png;base64,AAAA'',
          generatedImages = initialImages EMOTIONS,
          isLoading = False, isDownloading = False, appState = ResultsShown\<rparr>))"
proof -
  let ?b = "\<lparr>uploadedImage = Some ''data:image/png;base64,AAAA'',
          generatedImages = initialImages EMOTIONS,
          isLoading = False, isDownloading = False, appState = ResultsShown\<rparr>"
  let ?s0 = "start_workers concurrencyLimit (initial_run EMOTIONS ''data:image/png;base64,AAAA'' ?b)"
  have h1: "handleGenerateClick EMOTIONS ?b = Some ?s0 \<and> run_events [] ?s0 = Some ?s0"
    by (simp add: handleGenerateClick_def)
  note t = writes_keep_entries_consistent [where es = EMOTIONS and a = ?b and ?s0.0 = ?s0
      and evs = "[]" and s = ?s0 and out = "Fulfilled ''data:image/png;base64,CCCC''"
      and lbl = "label (EMOTIONS ! 3)"]
  have h2: "results_ok (generatedImages ?b)"
    using t by simp
  from t h1 h2 show ?thesis by blast
qed

text \<open>
  Claim C5, as amended. A request that settles with a failure, in the pipeline or in a
  regenerate, turns the entry of its label into an error entry. The message stored is
  the failure's own message when the failure is an \<open>Error\<close>, and the default message
  when it is any other value. In the pipeline the other outstanding requests stay
  outstanding, the queue is untouched, the other workers are untouched, and the worker
  that waited continues its loop.
\<close>

theorem failure_becomes_error_entry:
  "errorMessage (ErrorInstance m) = m
   \<and> errorMessage NotAnError = default_error_message
   \<and> settled_entry (Rejected err) = error_entry (errorMessage err)
   \<and> (map_of (outstanding s) t = Some r \<longrightarrow>
        (\<exists>s'. step (Settle t (Rejected err)) s = Some s'
          \<and> map_of (generatedImages s')
               = (map_of (generatedImages s))(req_label r \<mapsto> error_entry (errorMessage err))
          \<and> outstanding s' = filter (\<lambda>c. fst c \<noteq> t) (outstanding s)
          \<and> emotionsQueue s' = emotionsQueue s
          \<and> workers s' = map (\<lambda>wk. if wk = Awaiting t then AtLoopHead else wk) (workers s)
          \<and> (\<forall>w < length (workers s). workers s ! w = Awaiting t
                \<longrightarrow> step (Resume w) s' = Some (worker_loop w s'))))
   \<and> handleRegenerateEmotion_settled lbl (Rejected err) a
        = a\<lparr>generatedImages := AList.update lbl (error_entry (errorMessage err)) (generatedImages a)\<rparr>
   \<and> map_of (generatedImages (handleRegenerateEmotion_settled lbl (Rejected err) a))
        = (map_of (generatedImages a))(lbl \<mapsto> error_entry (errorMessage err))"
  by (simp add: errorMessage_def settled_entry_def processEmotion_settled_def update_conv'
      handleRegenerateEmotion_settled_def)

lemma started_outstanding:
  "outstanding (start_workers concurrencyLimit (initial_run EMOTIONS img a))
     = [(0, request_for img (EMOTIONS ! 0)), (1, request_for img (EMOTIONS ! 1))]"
  by (simp add: start_workers_def concurrencyLimit_def initial_run_def worker_loop_def
      processEmotion_call_def EMOTIONS_def upt_rec numeral_2_eq_2 Let_def)

theorem failure_becomes_error_entry_witness:
  "map_of (outstanding (start_workers concurrencyLimit
             (initial_run EMOTIONS ''data:image/png;base64,AAAA''
                \<lparr>uploadedImage = Some ''data:image/png;base64,AAAA'', generatedImages = [],
                 isLoading = False, isDownloading = False, appState = ImageUploaded\<rparr>))) 1
     = Some (request_for ''data:image/png;base64,AAAA'' (EMOTIONS ! 1))
   \<and> (\<exists>s'. step (Settle 1 (Rejected (ErrorInstance ''quota exceeded'')))
               (start_workers concurrencyLimit
                 (initial_run EMOTIONS ''data:image/png;base64,AAAA''
                   \<lparr>uploadedImage = Some ''data:image/png;base64,AAAA'', generatedImages = [],
                    isLoading = False, isDownloading = False, appState = ImageUploaded\<rparr>)) = Some s'
          \<and> map_of (generatedImages s') (label (EMOTIONS ! 1)) = Some (error_entry ''quota exceeded'')
          \<and> map_of (generatedImages s') (label (EMOTIONS ! 0)) = Some pending_entry
          \<and> outstanding s' = [(0, request_for ''data:image/png;base64,AAAA'' (EMOTIONS ! 0))])"
proof -
  let ?s = "start_workers concurrencyLimit
             (initial_run EMOTIONS ''data:image/png;base64,AAAA''
                \<lparr>uploadedImage = Some ''data:image/png;base64,AAAA'', generatedImages = [],
                 isLoading = False, isDownloading = False, appState = ImageUploaded\<rparr>)"
  have h: "map_of (outstanding ?s) 1 = Some (request_for ''data:image/png;base64,AAAA'' (EMOTIONS ! 1))"
    by (simp add: started_outstanding)
  have g: "map_of (generatedImages ?s) (label (EMOTIONS ! 0)) = Some pending_entry"
    by (simp add: start_workers_def concurrencyLimit_def initial_run_def worker_loop_def
        processEmotion_call_def upt_rec numeral_2_eq_2 map_of_initialImages EMOTIONS_def Let_def)
  have l: "req_label (request_for ''data:image/png;base64,AAAA'' (EMOTIONS ! 1)) = label (EMOTIONS ! 1)"
     "label (EMOTIONS ! 0) \<noteq> label (EMOTIONS ! 1)"
     "errorMessage (ErrorInstance ''quota exceeded'') = ''quota exceeded''"
    by (simp_all add: request_for_def EMOTIONS_def errorMessage_def)
  from failure_becomes_error_entry [of "''quota exceeded''" "ErrorInstance ''quota exceeded''" ?s 1
        "request_for ''data:image/png;base64,AAAA'' (EMOTIONS ! 1)"] h
  obtain s' where s': "step (Settle 1 (Rejected (ErrorInstance ''quota exceeded''))) ?s = Some s'"
    "map_of (generatedImages s')
       = (map_of (generatedImages ?s))(req_label (request_for ''data:image/png;base64,AAAA'' (EMOTIONS ! 1))
            \<mapsto> error_entry (errorMessage (ErrorInstance ''quota exceeded'')))"
    "outstanding s' = filter (\<lambda>c. fst c \<noteq> 1) (outstanding ?s)"
    by blast
  have "map_of (generatedImages s') (label (EMOTIONS ! 1)) = Some (error_entry ''quota exceeded'')"
    using s'(2) l by simp
  moreover have "map_of (generatedImages s') (label (EMOTIONS ! 0)) = Some pending_entry"
    using s'(2) l g by simp
  moreover have "outstanding s' = [(0, request_for ''data:image/png;base64,AAAA'' (EMOTIONS ! 0))]"
    using s'(3) by (simp add: started_outstanding)
  ultimately show ?thesis using h s'(1) by blast
qed

text \<open>
  Claim C5 as stated says that the default message is used whenever the failure carries
  no message. An \<open>Error\<close> made without a message has the empty message, and that empty
  message is what is stored.
\<close>

theorem default_message_counterexample:
  "\<not> carries_message (ErrorInstance [])
   \<and> error (settled_entry (Rejected (ErrorInstance []))) = Some []
   \<and> error (settled_entry (Rejected (ErrorInstance []))) \<noteq> Some default_error_message"
  by (simp add: carries_message_def settled_entry_def error_entry_def errorMessage_def
      default_error_message_def)

section \<open>The worker pool\<close>

lemma awaited_release:
  "awaited (map (\<lambda>wk. if wk = Awaiting t then AtLoopHead else wk) ws)
     = filter (\<lambda>x. x \<noteq> t) (awaited ws)"
proof (induction ws)
  case Nil
  then show ?case by simp
next
  case (Cons wk ws)
  then show ?case by (cases wk) simp_all
qed

lemma awaited_suspend:
  "w < length ws \<Longrightarrow> ws ! w = AtLoopHead \<Longrightarrow>
   mset (awaited (ws[w := Awaiting t])) = add_mset t (mset (awaited ws))"
proof (induction ws arbitrary: w)
  case Nil
  then show ?case by simp
next
  case (Cons wk ws)
  show ?case
  proof (cases w)
    case 0
    with Cons.prems show ?thesis by simp
  next
    case (Suc v)
    with Cons show ?thesis by (cases wk) simp_all
  qed
qed

lemma awaited_join:
  "w < length ws \<Longrightarrow> ws ! w = AtLoopHead \<Longrightarrow> awaited (ws[w := Joined]) = awaited ws"
proof (induction ws arbitrary: w)
  case Nil
  then show ?case by simp
next
  case (Cons wk ws)
  show ?case
  proof (cases w)
    case 0
    with Cons.prems show ?thesis by simp
  next
    case (Suc v)
    with Cons show ?thesis by (cases wk) simp_all
  qed
qed

lemma awaited_length: "length (awaited ws) \<le> length ws"
proof (induction ws)
  case Nil
  then show ?case by simp
next
  case (Cons wk ws)
  then show ?case by (cases wk) simp_all
qed



lemma mset_map_fst_filter:
  "mset (map fst (filter (\<lambda>c. fst c \<noteq> t) xs)) = filter_mset (\<lambda>x. x \<noteq> t) (mset (map fst xs))"
  by (induction xs) simp_all

lemma awaited_replicate: "awaited (replicate n AtLoopHead) = []"
  by (induction n) simp_all

lemma pool_inv_bound: "pool_inv s \<Longrightarrow> length (outstanding s) \<le> concurrencyLimit"
proof -
  assume p: "pool_inv s"
  then have "size (mset (map fst (outstanding s))) = size (mset (awaited (workers s)))"
    by (simp add: pool_inv_def)
  then have "length (outstanding s) = length (awaited (workers s))" by simp
  with awaited_length[of "workers s"] p show ?thesis by (simp add: pool_inv_def)
qed

lemma pool_inv_worker_loop:
  assumes "pool_inv s" "w < length (workers s)" "workers s ! w = AtLoopHead"
  shows "pool_inv (worker_loop w s)"
proof (cases "emotionsQueue s")
  case Nil
  with assms show ?thesis
    by (simp add: pool_inv_def worker_loop_def awaited_join)
next
  case (Cons e rest)
  with assms show ?thesis
    by (simp add: pool_inv_def worker_loop_def processEmotion_call_def Let_def awaited_suspend)
qed

lemma pool_inv_settled:
  assumes "pool_inv s"
  shows "pool_inv (processEmotion_settled t r out s)"
proof -
  have "mset (map fst (filter (\<lambda>c. fst c \<noteq> t) (outstanding s)))
          = filter_mset (\<lambda>x. x \<noteq> t) (mset (map fst (outstanding s)))"
    by (rule mset_map_fst_filter)
  with assms show ?thesis
    by (simp add: pool_inv_def processEmotion_settled_def awaited_release)
qed

lemma pool_inv_step:
  assumes "step ev s = Some s'" "pool_inv s"
  shows "pool_inv s'"
proof (cases ev)
  case (Settle t out)
  with assms show ?thesis by (auto split: option.splits intro: pool_inv_settled)
next
  case (Resume w)
  with assms show ?thesis by (auto split: if_splits intro: pool_inv_worker_loop)
next
  case Finish
  with assms show ?thesis by (auto split: if_splits simp: pool_inv_def)
qed

lemma pool_inv_run:
  "run_events evs s = Some s' \<Longrightarrow> pool_inv s \<Longrightarrow> pool_inv s'"
proof (induction evs arbitrary: s)
  case Nil
  then show ?case by simp
next
  case (Cons ev evs)
  then show ?case by (auto split: option.splits dest: pool_inv_step)
qed

lemma start_workers_Suc: "start_workers (Suc k) s = worker_loop k (start_workers k s)"
  by (simp add: start_workers_def)

lemma workers_worker_loop_other:
  "j \<noteq> w \<Longrightarrow> workers (worker_loop w s) ! j = workers s ! j"
  by (simp add: worker_loop_def processEmotion_call_def Let_def split: list.splits)

lemma length_workers_worker_loop [simp]:
  "length (workers (worker_loop w s)) = length (workers s)"
  by (simp add: worker_loop_def processEmotion_call_def Let_def split: list.splits)

lemma pool_inv_initial: "pool_inv (initial_run es img a)"
  by (simp add: pool_inv_def initial_run_def awaited_replicate)

section \<open>The ledger of a run\<close>

lemma req_label_request_for [simp]: "req_label (request_for img e) = label e"
  by (simp add: request_for_def)

lemma sourceImage_worker_loop [simp]: "sourceImage (worker_loop w s) = sourceImage s"
  by (simp add: worker_loop_def processEmotion_call_def Let_def split: list.splits)

lemma mset_snd_remove_ticket:
  "distinct (map fst xs) \<Longrightarrow> (t, r) \<in> set xs \<Longrightarrow>
   mset (map snd xs) = add_mset r (mset (map snd (filter (\<lambda>c. fst c \<noteq> t) xs)))"
proof (induction xs)
  case Nil
  then show ?case by simp
next
  case (Cons x xs)
  show ?case
  proof (cases "x = (t, r)")
    case True
    with Cons.prems have "t \<notin> fst ` set xs" by auto
    then have "filter (\<lambda>c. fst c \<noteq> t) xs = xs" by (auto simp: filter_id_conv)
    with True show ?thesis by simp
  next
    case False
    with Cons.prems have in_xs: "(t, r) \<in> set xs" and dx: "distinct (map fst xs)" by auto
    from Cons.prems in_xs have "fst x \<noteq> t" by (auto simp: image_iff)
    with Cons.IH[OF dx in_xs] show ?thesis by simp
  qed
qed

lemma ledger_invI:
  assumes "distinct (map fst (outstanding s))"
    and "\<forall>c \<in> set (outstanding s). fst c < length (issued s)"
    and "issued s @ map (request_for (sourceImage s)) (emotionsQueue s)
           = map (request_for (sourceImage s)) es"
    and "mset (issued s) = mset (map snd (outstanding s)) + mset (map fst (settledLog s))"
    and "Joined \<in> set (workers s) \<longrightarrow> emotionsQueue s = []"
  shows "ledger_inv es s"
  unfolding ledger_inv_def using assms by blast

lemma ledger_invD:
  assumes "ledger_inv es s"
  shows "distinct (map fst (outstanding s))"
    and "\<forall>c \<in> set (outstanding s). fst c < length (issued s)"
    and "issued s @ map (request_for (sourceImage s)) (emotionsQueue s)
           = map (request_for (sourceImage s)) es"
    and "mset (issued s) = mset (map snd (outstanding s)) + mset (map fst (settledLog s))"
    and "Joined \<in> set (workers s) \<longrightarrow> emotionsQueue s = []"
  using assms unfolding ledger_inv_def by blast+

lemma ledger_inv_worker_loop:
  assumes inv: "ledger_inv es s" and w: "w < length (workers s)" "workers s ! w = AtLoopHead"
  shows "ledger_inv es (worker_loop w s)"
proof (cases "emotionsQueue s")
  case Nil
  then have wl: "worker_loop w s = s\<lparr>workers := (workers s)[w := Joined]\<rparr>"
    by (simp add: worker_loop_def)
  note D = ledger_invD[OF inv]
  show ?thesis
    unfolding wl
  proof (rule ledger_invI)
    show "Joined \<in> set (workers (s\<lparr>workers := (workers s)[w := Joined]\<rparr>))
            \<longrightarrow> emotionsQueue (s\<lparr>workers := (workers s)[w := Joined]\<rparr>) = []"
      using Nil by simp
  qed (use D in simp_all)
next
  case (Cons e rest)
  let ?t = "length (issued s)"
  let ?r = "request_for (sourceImage s) e"
  let ?s' = "s\<lparr>emotionsQueue := rest, workers := (workers s)[w := Awaiting ?t],
              issued := issued s @ [?r], outstanding := outstanding s @ [(?t, ?r)]\<rparr>"
  have wl: "worker_loop w s = ?s'"
    using Cons by (simp add: worker_loop_def processEmotion_call_def Let_def)
  note D = ledger_invD[OF inv]
  from D(2) have fresh: "?t \<notin> fst ` set (outstanding s)" by auto
  from D(5) Cons have nj: "Joined \<notin> set (workers s)" by auto
  have nj': "Joined \<notin> set ((workers s)[w := Awaiting ?t])"
    using nj set_update_subset_insert[of "workers s" w "Awaiting ?t"] by auto
  show ?thesis
    unfolding wl
  proof (rule ledger_invI)
    show "distinct (map fst (outstanding ?s'))" using D(1) fresh by simp
    show "\<forall>c \<in> set (outstanding ?s'). fst c < length (issued ?s')"
      using D(2) by (auto simp: less_Suc_eq)
    show "issued ?s' @ map (request_for (sourceImage ?s')) (emotionsQueue ?s')
           = map (request_for (sourceImage ?s')) es"
      using D(3) Cons by simp
    show "mset (issued ?s') = mset (map snd (outstanding ?s')) + mset (map fst (settledLog ?s'))"
      using D(4) by simp
    show "Joined \<in> set (workers ?s') \<longrightarrow> emotionsQueue ?s' = []"
      using nj' by simp
  qed
qed

lemma ledger_inv_settled:
  assumes inv: "ledger_inv es s" and t: "map_of (outstanding s) t = Some r"
  shows "ledger_inv es (processEmotion_settled t r out s)"
proof -
  note D = ledger_invD[OF inv]
  from t have mem: "(t, r) \<in> set (outstanding s)" by (rule map_of_SomeD)
  have ms: "mset (map snd (outstanding s))
              = add_mset r (mset (map snd (filter (\<lambda>c. fst c \<noteq> t) (outstanding s))))"
    by (rule mset_snd_remove_ticket[OF D(1) mem])
  let ?s' = "processEmotion_settled t r out s"
  have f: "workers ?s' = map (\<lambda>wk. if wk = Awaiting t then AtLoopHead else wk) (workers s)"
    "outstanding ?s' = filter (\<lambda>c. fst c \<noteq> t) (outstanding s)"
    "settledLog ?s' = settledLog s @ [(r, out)]"
    "issued ?s' = issued s" "emotionsQueue ?s' = emotionsQueue s" "sourceImage ?s' = sourceImage s"
    by (simp_all add: processEmotion_settled_def)
  show ?thesis
  proof (rule ledger_invI)
    show "distinct (map fst (outstanding ?s'))"
      unfolding f using D(1) by (rule distinct_map_filter)
    show "\<forall>c \<in> set (outstanding ?s'). fst c < length (issued ?s')"
      unfolding f using D(2) by simp
    show "issued ?s' @ map (request_for (sourceImage ?s')) (emotionsQueue ?s')
           = map (request_for (sourceImage ?s')) es"
      unfolding f using D(3) .
    show "mset (issued ?s') = mset (map snd (outstanding ?s')) + mset (map fst (settledLog ?s'))"
      unfolding f using D(4) ms by simp
    show "Joined \<in> set (workers ?s') \<longrightarrow> emotionsQueue ?s' = []"
      unfolding f using D(5) by auto
  qed
qed

lemma ledger_inv_finish:
  assumes "ledger_inv es s"
  shows "ledger_inv es (s\<lparr>isLoading := False, appState := ResultsShown, main := Returned\<rparr>)"
  by (rule ledger_invI) (use ledger_invD[OF assms] in simp_all)

lemma ledger_inv_step:
  assumes "step ev s = Some s'" "ledger_inv es s"
  shows "ledger_inv es s'"
proof (cases ev)
  case (Settle t out)
  with assms show ?thesis by (auto split: option.splits intro: ledger_inv_settled)
next
  case (Resume w)
  with assms show ?thesis by (auto split: if_splits intro: ledger_inv_worker_loop)
next
  case Finish
  with assms show ?thesis by (auto split: if_splits intro: ledger_inv_finish)
qed

lemma ledger_inv_run:
  "run_events evs s = Some s' \<Longrightarrow> ledger_inv es s \<Longrightarrow> ledger_inv es s'"
proof (induction evs arbitrary: s)
  case Nil
  then show ?case by simp
next
  case (Cons ev evs)
  then show ?case by (auto split: option.splits dest: ledger_inv_step)
qed

lemma ledger_inv_initial: "ledger_inv es (initial_run es img a)"
  by (simp add: ledger_inv_def initial_run_def)

text \<open>The synchronous start: after \<open>k\<close> workers have run to their first suspension the
  invariants hold and the other workers have not moved.\<close>

lemma start_workers_inv:
  "k \<le> concurrencyLimit \<Longrightarrow>
     pool_inv (start_workers k (initial_run es img a))
   \<and> ledger_inv es (start_workers k (initial_run es img a))
   \<and> (\<forall>j. k \<le> j \<and> j < concurrencyLimit
          \<longrightarrow> workers (start_workers k (initial_run es img a)) ! j = AtLoopHead)"
proof (induction k)
  case 0
  then show ?case
    by (simp add: start_workers_def pool_inv_initial ledger_inv_initial)
       (simp add: initial_run_def)
next
  case (Suc k)
  let ?s = "start_workers k (initial_run es img a)"
  from Suc have ih: "pool_inv ?s" "ledger_inv es ?s"
    "\<forall>j. k \<le> j \<and> j < concurrencyLimit \<longrightarrow> workers ?s ! j = AtLoopHead"
    by simp_all
  from ih(1) Suc.prems have k: "k < length (workers ?s)" "workers ?s ! k = AtLoopHead"
    using ih(3) by (simp_all add: pool_inv_def)
  show ?case
    unfolding start_workers_Suc
    using pool_inv_worker_loop[OF ih(1) k] ledger_inv_worker_loop[OF ih(2) k] ih(3)
    by (simp add: workers_worker_loop_other)
qed

lemma handleGenerateClick_inv:
  assumes "handleGenerateClick es a = Some s0"
  shows "pool_inv s0" "ledger_inv es s0" "main s0 = AwaitingWorkers"
proof -
  from assms obtain img where s0: "s0 = start_workers concurrencyLimit (initial_run es img a)"
    by (auto simp: handleGenerateClick_def split: option.splits if_splits)
  from start_workers_inv[of concurrencyLimit es img a] s0
  show "pool_inv s0" "ledger_inv es s0" by simp_all
  have "main (start_workers k s) = main s" for k s
    by (induction k) (simp_all add: start_workers_def worker_loop_def processEmotion_call_def
        Let_def split: list.splits)
  with s0 show "main s0 = AwaitingWorkers" by (simp add: initial_run_def)
qed

subsection \<open>Every run comes to an end\<close>

lemma pool_counts_release:
  "length (filter (\<lambda>wk. wk = AtLoopHead) (map (\<lambda>wk. if wk = Awaiting t then AtLoopHead else wk) ws))
     + length (awaited (map (\<lambda>wk. if wk = Awaiting t then AtLoopHead else wk) ws))
   = length (filter (\<lambda>wk. wk = AtLoopHead) ws) + length (awaited ws)"
proof (induction ws)
  case Nil
  then show ?case by simp
next
  case (Cons wk ws)
  then show ?case by (cases wk) simp_all
qed

lemma awaited_release_less:
  assumes "t \<in> set (awaited ws)"
  shows "length (awaited (map (\<lambda>wk. if wk = Awaiting t then AtLoopHead else wk) ws))
           < length (awaited ws)"
  unfolding awaited_release using assms by (simp add: length_filter_less)

lemma loophead_count_update:
  "w < length ws \<Longrightarrow> ws ! w = AtLoopHead \<Longrightarrow> wk \<noteq> AtLoopHead \<Longrightarrow>
   Suc (length (filter (\<lambda>x. x = AtLoopHead) (ws[w := wk])))
     = length (filter (\<lambda>x. x = AtLoopHead) ws)"
proof (induction ws arbitrary: w)
  case Nil
  then show ?case by simp
next
  case (Cons x xs)
  show ?case
  proof (cases w)
    case 0
    with Cons.prems show ?thesis by simp
  next
    case (Suc v)
    with Cons show ?thesis by simp
  qed
qed

lemma awaited_suspend_length:
  assumes "w < length ws" "ws ! w = AtLoopHead"
  shows "length (awaited (ws[w := Awaiting t])) = Suc (length (awaited ws))"
proof -
  have "size (mset (awaited (ws[w := Awaiting t]))) = size (add_mset t (mset (awaited ws)))"
    by (simp only: awaited_suspend[OF assms])
  then show ?thesis by simp
qed

lemma run_measure_step:
  assumes "step ev s = Some s'" "pool_inv s"
  shows "run_measure s' < run_measure s"
proof (cases ev)
  case (Settle t out)
  with assms(1) obtain r where r: "map_of (outstanding s) t = Some r"
    and s': "s' = processEmotion_settled t r out s"
    by (auto split: option.splits)
  from r have "t \<in> fst ` set (outstanding s)" by (force dest: map_of_SomeD)
  then have "t \<in># mset (map fst (outstanding s))" by simp
  with assms(2) have "t \<in> set (awaited (workers s))"
    by (simp add: pool_inv_def)
  from awaited_release_less[OF this] pool_counts_release[of t "workers s"]
  show ?thesis
    unfolding s' by (simp add: run_measure_def processEmotion_settled_def)
next
  case (Resume w)
  with assms(1) have w: "w < length (workers s)" "workers s ! w = AtLoopHead"
    and s': "s' = worker_loop w s"
    by (auto split: if_splits)
  show ?thesis
  proof (cases "emotionsQueue s")
    case Nil
    with loophead_count_update[OF w, of Joined] awaited_join[OF w]
    show ?thesis
      unfolding s' by (simp add: run_measure_def worker_loop_def)
  next
    case (Cons e rest)
    with loophead_count_update[OF w, of "Awaiting (length (issued s))"]
      awaited_suspend_length[OF w, of "length (issued s)"]
    show ?thesis
      unfolding s' by (simp add: run_measure_def worker_loop_def processEmotion_call_def Let_def)
  qed
next
  case Finish
  with assms(1) show ?thesis by (auto simp: run_measure_def split: if_splits)
qed



lemma run_measure_run:
  "run_events evs s = Some s' \<Longrightarrow> pool_inv s \<Longrightarrow> run_measure s' + length evs \<le> run_measure s"
proof (induction evs arbitrary: s)
  case Nil
  then show ?case by simp
next
  case (Cons ev evs)
  from Cons.prems obtain s1 where s1: "step ev s = Some s1" "run_events evs s1 = Some s'"
    by (auto split: option.splits)
  from Cons.IH[OF s1(2) pool_inv_step[OF s1(1) Cons.prems(2)]]
    run_measure_step[OF s1(1) Cons.prems(2)]
  show ?case by simp
qed

subsection \<open>The settled run\<close>




lemma terminal_settled_entry: "terminal (Some (settled_entry out))"
  by (cases out) (simp_all add: terminal_def settled_entry_def done_entry_def error_entry_def)

lemma example_run_prefix:
  "\<exists>s. run_events [Settle 1 (Rejected NotAnError), Resume 1]
        (start_workers concurrencyLimit (initial_run EMOTIONS ''data:image/png;base64,AAAA''
          \<lparr>uploadedImage = Some ''data:image/png;base64,AAAA'', generatedImages = [],
           isLoading = False, isDownloading = False, appState = ImageUploaded\<rparr>)) = Some s
      \<and> map fst (outstanding s) = [0, 2]"
  by (simp add: start_workers_def concurrencyLimit_def initial_run_def worker_loop_def
      processEmotion_call_def processEmotion_settled_def EMOTIONS_def upt_rec numeral_2_eq_2 Let_def)

lemma example_click:
  "handleGenerateClick EMOTIONS
     \<lparr>uploadedImage = Some ''data:image/png;base64,AAAA'', generatedImages = [],
      isLoading = False, isDownloading = False, appState = ImageUploaded\<rparr>
   = Some (start_workers concurrencyLimit (initial_run EMOTIONS ''data:image/png;base64,AAAA''
          \<lparr>uploadedImage = Some ''data:image/png;base64,AAAA'', generatedImages = [],
           isLoading = False, isDownloading = False, appState = ImageUploaded\<rparr>))"
  by (simp add: handleGenerateClick_def)

section \<open>Runs of the pipeline on the live page\<close>

lemma app_of_fields [simp]:
  "uploadedImage (app_of s) = uploadedImage s"
  "generatedImages (app_of s) = generatedImages s"
  by (simp_all add: app_of_def)

lemma find_Some_mem: "find P xs = Some x \<Longrightarrow> P x \<and> x \<in> set xs"
  by (induction xs) (auto split: if_splits)

text \<open>A shake either changes nothing or resets the entry of its label and issues a
  request for that label.\<close>

lemma regenerate_call_issued:
  "handleRegenerateEmotion_call es lbl a = (a, None)
   \<or> (\<exists>r. req_label r = lbl
         \<and> map_option status (map_of (generatedImages a) lbl) \<noteq> Some Pending
         \<and> handleRegenerateEmotion_call es lbl a
              = (a\<lparr>generatedImages := AList.update lbl pending_entry (generatedImages a)\<rparr>, Some r))"
proof (cases "uploadedImage a")
  case None
  then show ?thesis by (simp add: handleRegenerateEmotion_call_def)
next
  case (Some img)
  show ?thesis
  proof (cases "img = [] \<or> find (\<lambda>e. label e = lbl) es = None
                \<or> map_option status (map_of (generatedImages a) lbl) = Some Pending")
    case True
    with Some show ?thesis
      by (auto simp: handleRegenerateEmotion_call_def split: option.splits)
  next
    case False
    then obtain e where e: "find (\<lambda>e. label e = lbl) es = Some e" by auto
    from find_Some_mem[OF e] have "req_label (request_for img e) = lbl"
      by (simp add: request_for_def)
    moreover from False Some e have "handleRegenerateEmotion_call es lbl a
          = (a\<lparr>generatedImages := AList.update lbl pending_entry (generatedImages a)\<rparr>,
             Some (request_for img e))"
      by (simp add: handleRegenerateEmotion_call_def)
    ultimately show ?thesis using False by blast
  qed
qed

lemma shake_cases:
  "page_step es (Shake lbl) p = Some p
   \<or> (\<exists>r. req_label r = lbl
         \<and> map_option status (map_of (generatedImages (the_run p)) lbl) \<noteq> Some Pending
         \<and> page_step es (Shake lbl) p
             = Some (p\<lparr>the_run := (the_run p)\<lparr>generatedImages :=
                          AList.update lbl pending_entry (generatedImages (the_run p))\<rparr>,
                      regenerating := regenerating p @ [r]\<rparr>))"
proof -
  from regenerate_call_issued[of es lbl "app_of (the_run p)"]
  consider "handleRegenerateEmotion_call es lbl (app_of (the_run p)) = (app_of (the_run p), None)"
    | r where "req_label r = lbl"
      "map_option status (map_of (generatedImages (the_run p)) lbl) \<noteq> Some Pending"
      "handleRegenerateEmotion_call es lbl (app_of (the_run p))
              = ((app_of (the_run p))\<lparr>generatedImages :=
                    AList.update lbl pending_entry (generatedImages (the_run p))\<rparr>, Some r)"
    by auto
  then show ?thesis
  proof cases
    case 1
    then have "page_step es (Shake lbl) p = Some p" by simp
    then show ?thesis by blast
  next
    case 2
    then have "page_step es (Shake lbl) p
             = Some (p\<lparr>the_run := (the_run p)\<lparr>generatedImages :=
                          AList.update lbl pending_entry (generatedImages (the_run p))\<rparr>,
                      regenerating := regenerating p @ [r]\<rparr>)" by simp
    with 2(1,2) show ?thesis by blast
  qed
qed

lemma regenerate_settled_cases:
  assumes "page_step es (RegenerateSettled lbl out) p = Some p'"
  shows "\<exists>r. r \<in> set (regenerating p) \<and> req_label r = lbl
           \<and> p' = p\<lparr>the_run := (the_run p)\<lparr>generatedImages :=
                          AList.update lbl (settled_entry out) (generatedImages (the_run p))\<rparr>,
                      regenerating := remove1 r (regenerating p)\<rparr>"
  using assms
  by (auto simp: handleRegenerateEmotion_settled_def
           split: option.splits dest: find_Some_mem)

lemma pool_inv_generatedImages [simp]:
  "pool_inv (s\<lparr>generatedImages := g\<rparr>) = pool_inv s"
  by (simp add: pool_inv_def)

lemma ledger_inv_generatedImages [simp]:
  "ledger_inv es (s\<lparr>generatedImages := g\<rparr>) = ledger_inv es s"
  by (simp add: ledger_inv_def)

lemma run_measure_generatedImages [simp]:
  "run_measure (s\<lparr>generatedImages := g\<rparr>) = run_measure s"
  by (simp add: run_measure_def)

lemma page_step_books:
  assumes "page_step es ev p = Some p'" "pool_inv (the_run p)" "ledger_inv es' (the_run p)"
  shows "pool_inv (the_run p')" "ledger_inv es' (the_run p')"
proof -
  have "pool_inv (the_run p') \<and> ledger_inv es' (the_run p')"
  proof (cases ev)
    case (Handler e)
    with assms(1) obtain s' where "step e (the_run p) = Some s'" "p' = p\<lparr>the_run := s'\<rparr>"
      by (auto split: option.splits)
    with pool_inv_step[OF _ assms(2)] ledger_inv_step[OF _ assms(3)] show ?thesis by simp
  next
    case (Shake lbl)
    with shake_cases[of es lbl p] assms show ?thesis by auto
  next
    case (RegenerateSettled lbl out)
    with regenerate_settled_cases[of es lbl out p p'] assms show ?thesis by auto
  qed
  then show "pool_inv (the_run p')" "ledger_inv es' (the_run p')" by simp_all
qed

lemma page_run_books:
  "page_run es evs p = Some p' \<Longrightarrow> pool_inv (the_run p) \<Longrightarrow> ledger_inv es' (the_run p)
   \<Longrightarrow> pool_inv (the_run p') \<and> ledger_inv es' (the_run p')"
proof (induction evs arbitrary: p)
  case Nil
  then show ?case by simp
next
  case (Cons ev evs)
  from Cons.prems(1) obtain p1 where p1: "page_step es ev p = Some p1" "page_run es evs p1 = Some p'"
    by (auto split: option.splits)
  from page_step_books[OF p1(1) Cons.prems(2,3)] Cons.IH[OF p1(2)] show ?case by simp
qed























text \<open>
  Claim C2. In every state of a run, for any list of emotions, the number of outstanding
  requests is at most \<open>concurrencyLimit = 2\<close>: there are 2 workers, and the outstanding
  requests are exactly the ones the workers are suspended on. The same holds while the
  handler starts the workers.
\<close>

theorem outstanding_requests_bounded:
  "(handleGenerateClick es a = Some s0 \<and> run_events evs s0 = Some s \<longrightarrow>
        length (outstanding s) \<le> concurrencyLimit
      \<and> length (workers s) = concurrencyLimit
      \<and> mset (map fst (outstanding s)) = mset (awaited (workers s)))
   \<and> (\<forall>k \<le> concurrencyLimit.
         length (outstanding (start_workers k (initial_run es img a))) \<le> concurrencyLimit)
   \<and> concurrencyLimit = 2"
proof -
  have 1: "length (outstanding s) \<le> concurrencyLimit
      \<and> length (workers s) = concurrencyLimit
      \<and> mset (map fst (outstanding s)) = mset (awaited (workers s))"
    if "handleGenerateClick es a = Some s0" "run_events evs s0 = Some s"
  proof -
    have p: "pool_inv s"
      by (rule pool_inv_run[OF that(2) handleGenerateClick_inv(1)[OF that(1)]])
    from pool_inv_bound[OF p] p show ?thesis unfolding pool_inv_def by blast
  qed
  have 2: "\<forall>k \<le> concurrencyLimit.
         length (outstanding (start_workers k (initial_run es img a))) \<le> concurrencyLimit"
  proof (intro allI impI)
    fix k assume "k \<le> concurrencyLimit"
    from start_workers_inv[OF this, of es img a]
    have "pool_inv (start_workers k (initial_run es img a))" by blast
    then show "length (outstanding (start_workers k (initial_run es img a))) \<le> concurrencyLimit"
      by (rule pool_inv_bound)
  qed
  have 3: "concurrencyLimit = 2" by (simp add: concurrencyLimit_def)
  from 1 2 3 show ?thesis by blast
qed

theorem outstanding_requests_bounded_witness:
  "\<exists>s0 s. handleGenerateClick EMOTIONS
            \<lparr>uploadedImage = Some ''data:image/png;base64,AAAA'', generatedImages = [],
             isLoading = False, isDownloading = False, appState = ImageUploaded\<rparr> = Some s0
        \<and> run_events [Settle 1 (Rejected NotAnError), Resume 1] s0 = Some s
        \<and> map fst (outstanding s) = [0, 2]
        \<and> length (outstanding s) \<le> concurrencyLimit"
proof -
  let ?a = "\<lparr>uploadedImage = Some ''data:image/png;base64,AAAA'', generatedImages = [],
             isLoading = False, isDownloading = False, appState = ImageUploaded\<rparr>"
  let ?s0 = "start_workers concurrencyLimit (initial_run EMOTIONS ''data:image/png;base64,AAAA'' ?a)"
  let ?evs = "[Settle 1 (Rejected NotAnError), Resume 1]"
  from example_run_prefix obtain s where s:
    "run_events ?evs ?s0 = Some s" "map fst (outstanding s) = [0, 2]"
    by (elim exE conjE)
  note t = outstanding_requests_bounded [where es = EMOTIONS and a = ?a and ?s0.0 = ?s0
      and evs = ?evs and s = s and img = "''data:image/png;base64,AAAA''"]
  note c = t [THEN conjunct1, THEN mp, OF conjI, OF example_click s(1), THEN conjunct1]
  show ?thesis
  proof (intro exI conjI)
    show "handleGenerateClick EMOTIONS ?a = Some ?s0" by (rule example_click)
    show "run_events ?evs ?s0 = Some s" by (rule s(1))
    show "map fst (outstanding s) = [0, 2]" by (rule s(2))
    show "length (outstanding s) \<le> concurrencyLimit" by (rule c)
  qed
qed

end
